theory Spec2Isabelle
  imports Main "HOL-Library.Multiset"
begin

section \<open>JavaScript values used by the components\<close>

text \<open>
  Strings are lists of 8-bit characters. An optional string field (\<open>phone?: string\<close>)
  is a \<open>string option\<close>; JavaScript treats undefined, null and the empty string as falsy.
\<close>

fun truthy :: "string option \<Rightarrow> bool" where
  "truthy None = False"
| "truthy (Some s) = (s \<noteq> [])"

text \<open>
  \<open>String.prototype.trim\<close> removes white space and line terminators at both ends. Of
  these, the characters that fit into eight bits are TAB, LF, VT, FF, CR, SPACE and the
  no-break space.
\<close>

definition isWhiteSpace :: "char \<Rightarrow> bool" where
  "isWhiteSpace c = (of_char c \<in> {9, 10, 11, 12, 13, 32, 160 :: nat})"

definition trim :: "string \<Rightarrow> string" where
  "trim s = rev (dropWhile isWhiteSpace (rev (dropWhile isWhiteSpace s)))"

text \<open>\<open>String.prototype.startsWith\<close> and \<open>endsWith\<close>.\<close>

definition startsWith :: "string \<Rightarrow> string \<Rightarrow> bool" where
  "startsWith s p = (take (length p) s = p)"

definition endsWith :: "string \<Rightarrow> string \<Rightarrow> bool" where
  "endsWith s p = (length p \<le> length s \<and> drop (length s - length p) s = p)"


section \<open>The alert component (EmitirAlertaView)\<close>

text \<open>
  The sources hold two revisions of the component: the earlier one sends staff alerts
  only, the later one adds the group alert and the alert logs. The handlers of the staff
  wizard (selecting, going back, proceeding, opening the confirmation modal) read the same
  in both.
\<close>

subsection \<open>Data\<close>

text \<open>
  The declarations of \<open>Department\<close>, \<open>Staff\<close> and \<open>AlertLog\<close> are imported from a
  module that is not among the sources; the records hold the fields that the component
  reads and writes.
\<close>

record Department =
  dept_id :: string
  dept_name :: string

record Staff =
  staff_id :: string
  staff_name :: string
  staff_phone :: "string option"
  staff_departmentId :: string
  staff_photoUrl :: "string option"

record User =
  user_id :: string

record AlertRecipient =
  staffId :: string
  staffName :: string
  staffPhone :: "string option"

text \<open>The argument of \<open>addAlertLog\<close>; the group alert passes no \<open>departmentId\<close>.\<close>

record AlertLogInput =
  log_eventId :: string
  log_senderUserId :: string
  log_departmentId :: "string option"
  log_message :: string
  log_recipients :: "AlertRecipient list"

datatype SubmitStatus = Idle | Success | Error

datatype AlertType = StaffAlert | GroupAlert

datatype View = Form | Logs

text \<open>
  The object handed to \<open>JSON.stringify\<close> as the body of a webhook request: the staff
  payload \<open>{staffName, staffPhone, alertMessage}\<close> or the group payload \<open>{message}\<close>.
\<close>

datatype Body =
    StaffBody string "string option" string
  | GroupBody string

record Request =
  req_url :: string
  req_method :: string
  req_contentType :: string
  req_body :: Body

text \<open>
  What the outside world answers to one call of the handler: the \<open>i\<close>-th \<open>fetch\<close> of
  the batch either throws or resolves to a response with its \<open>ok\<close> flag, and
  \<open>addAlertLog\<close> either stores the entry or throws.
\<close>

datatype FetchOutcome = Threw | Responded bool

record Env =
  fetchOutcome :: "nat \<Rightarrow> FetchOutcome"
  addAlertLogOk :: bool

text \<open>
  Modelled from the spec: \<open>addAlertLog\<close> belongs to the API client, which is not among
  the sources. An alert log is "a persisted record of a broadcast message, its sender,
  target department (or group), and recipient list": a call that returns has persisted
  the record it was given, and a call that throws has persisted nothing.

  The component's state (\<open>useState\<close> variables, the \<open>eventId\<close> prop and the \<open>user\<close> of
  the authentication context), together with the two effects on the outside world that
  the handlers have: the requests sent to the webhooks (\<open>sentRequests\<close>) and the records
  persisted through \<open>addAlertLog\<close> (\<open>alertLogs\<close>).
\<close>

record AppState =
  eventId :: string
  user :: "User option"
  staffList :: "Staff list"
  alertType :: "AlertType option"
  step :: int
  selectedDepartment :: "Department option"
  selectedStaffIds :: "string set"
  alertMessage :: string
  isConfirmModalOpen :: bool
  isSubmitting :: bool
  submitStatus :: SubmitStatus
  groupAlertMessage :: string
  isGroupConfirmModalOpen :: bool
  isSubmittingGroup :: bool
  groupSubmitStatus :: SubmitStatus
  view :: View
  sentRequests :: "Request list"
  alertLogs :: "AlertLogInput list"

text \<open>The state after the first render, once \<open>fetchData\<close> has loaded the staff list.\<close>

definition initialState :: "string \<Rightarrow> User option \<Rightarrow> Staff list \<Rightarrow> AppState" where
  "initialState ev u staff =
     \<lparr> eventId = ev, user = u, staffList = staff, alertType = None, step = 1,
       selectedDepartment = None, selectedStaffIds = {}, alertMessage = [],
       isConfirmModalOpen = False, isSubmitting = False, submitStatus = Idle,
       groupAlertMessage = [], isGroupConfirmModalOpen = False,
       isSubmittingGroup = False, groupSubmitStatus = Idle, view = Form,
       sentRequests = [], alertLogs = [] \<rparr>"

subsection \<open>Memoized lists\<close>

definition staffInSelectedDepartment :: "AppState \<Rightarrow> Staff list" where
  "staffInSelectedDepartment s =
     (case selectedDepartment s of
        None \<Rightarrow> []
      | Some d \<Rightarrow> filter (\<lambda>m. staff_departmentId m = dept_id d) (staffList s))"

definition selectedStaffDetails :: "AppState \<Rightarrow> Staff list" where
  "selectedStaffDetails s = filter (\<lambda>m. staff_id m \<in> selectedStaffIds s) (staffList s)"

subsection \<open>Handlers of the form flow\<close>

definition handleDepartmentSelect :: "Department \<Rightarrow> AppState \<Rightarrow> AppState" where
  "handleDepartmentSelect department s =
     s\<lparr> selectedDepartment := Some department, selectedStaffIds := {}, step := 2 \<rparr>"

definition handleStaffToggle :: "string \<Rightarrow> AppState \<Rightarrow> AppState" where
  "handleStaffToggle sid s =
     (if sid \<in> selectedStaffIds s
      then s\<lparr> selectedStaffIds := selectedStaffIds s - {sid} \<rparr>
      else s\<lparr> selectedStaffIds := insert sid (selectedStaffIds s) \<rparr>)"

definition handleBack :: "AppState \<Rightarrow> AppState" where
  "handleBack s = (if step s > 1 then s\<lparr> step := step s - 1 \<rparr> else s)"

definition handleProceedToMessage :: "AppState \<Rightarrow> AppState" where
  "handleProceedToMessage s = (if selectedStaffIds s \<noteq> {} then s\<lparr> step := 3 \<rparr> else s)"

definition handleOpenConfirmModal :: "AppState \<Rightarrow> AppState" where
  "handleOpenConfirmModal s =
     (if trim (alertMessage s) \<noteq> [] then s\<lparr> isConfirmModalOpen := True \<rparr> else s)"

definition handleOpenGroupConfirmModal :: "AppState \<Rightarrow> AppState" where
  "handleOpenGroupConfirmModal s =
     (if trim (groupAlertMessage s) \<noteq> [] then s\<lparr> isGroupConfirmModalOpen := True \<rparr> else s)"

definition resetStaffForm :: "AppState \<Rightarrow> AppState" where
  "resetStaffForm s =
     s\<lparr> step := 1, selectedDepartment := None, selectedStaffIds := {},
        alertMessage := [], isConfirmModalOpen := False, submitStatus := Idle \<rparr>"

definition resetGroupForm :: "AppState \<Rightarrow> AppState" where
  "resetGroupForm s =
     s\<lparr> groupAlertMessage := [], isGroupConfirmModalOpen := False,
        groupSubmitStatus := Idle, isSubmittingGroup := False \<rparr>"

definition handleBackToChoice :: "AppState \<Rightarrow> AppState" where
  "handleBackToChoice s = (resetGroupForm (resetStaffForm s))\<lparr> alertType := None \<rparr>"

subsection \<open>Submission\<close>

definition staffWebhookUrl :: string where
  "staffWebhookUrl = ''https://webhook.triad3.io/webhook/emitiralerta-staffs''"

definition groupWebhookUrl :: string where
  "groupWebhookUrl = ''https://webhook.triad3.io/webhook/aca7d18d-8c37-49ae-92a4-03285bc6729a''"

text \<open>\<open>selectedStaffDetails.filter(s => s.phone)\<close>: the staff members a request goes to.\<close>

definition targets :: "AppState \<Rightarrow> Staff list" where
  "targets s = filter (\<lambda>m. truthy (staff_phone m)) (selectedStaffDetails s)"

text \<open>The \<open>fetch\<close> call built for one target.\<close>

definition staffRequest :: "string \<Rightarrow> Staff \<Rightarrow> Request" where
  "staffRequest msg m =
     \<lparr> req_url = staffWebhookUrl, req_method = ''POST'',
       req_contentType = ''application/json'',
       req_body = StaffBody (staff_name m) (staff_phone m) msg \<rparr>"

definition staffRecipient :: "Staff \<Rightarrow> AlertRecipient" where
  "staffRecipient m =
     \<lparr> staffId = staff_id m, staffName = staff_name m, staffPhone = staff_phone m \<rparr>"

text \<open>
  \<open>handleConfirmAndSend\<close> of the component with alert logs. All \<open>fetch\<close> calls are made
  while the \<open>requests\<close> array is built, before \<open>Promise.all\<close> is awaited; the promise
  rejects when some \<open>fetch\<close> throws. The result is the state once the handler has
  returned (the delayed reset is the separate step \<open>successTimeout\<close>).
\<close>

definition handleConfirmAndSend :: "Env \<Rightarrow> AppState \<Rightarrow> AppState" where
  "handleConfirmAndSend env s =
     (let tgts = targets s in
      if length tgts = 0 then s\<lparr> submitStatus := Error, isSubmitting := False \<rparr>
      else
        let requests = map (staffRequest (alertMessage s)) tgts;
            s1 = s\<lparr> sentRequests := sentRequests s @ requests \<rparr>;
            outcomes = map (fetchOutcome env) [0 ..< length requests];
            failed = s1\<lparr> submitStatus := Error, isSubmitting := False \<rparr>;
            succeeded = s1\<lparr> submitStatus := Success, isSubmitting := False \<rparr>
        in if Threw \<in> set outcomes then failed
           else if Responded False \<in> set outcomes then failed
           else (case (user s, selectedDepartment s) of
                   (Some u, Some d) \<Rightarrow>
                     if addAlertLogOk env
                     then succeeded\<lparr> alertLogs := alertLogs s @
                            [\<lparr> log_eventId = eventId s, log_senderUserId = user_id u,
                               log_departmentId = Some (dept_id d),
                               log_message = alertMessage s,
                               log_recipients = map staffRecipient tgts \<rparr>] \<rparr>
                     else failed
                 | _ \<Rightarrow> succeeded))"

text \<open>
  \<open>handleConfirmAndSend\<close> of the earlier revision of the component
  (components/Admin/EmitirAlertaView.tsx): the same requests, and no alert log.
\<close>

definition handleConfirmAndSend_noLog :: "Env \<Rightarrow> AppState \<Rightarrow> AppState" where
  "handleConfirmAndSend_noLog env s =
     (let tgts = targets s in
      if length tgts = 0 then s\<lparr> submitStatus := Error, isSubmitting := False \<rparr>
      else
        let requests = map (staffRequest (alertMessage s)) tgts;
            s1 = s\<lparr> sentRequests := sentRequests s @ requests \<rparr>;
            outcomes = map (fetchOutcome env) [0 ..< length requests]
        in if Threw \<in> set outcomes then s1\<lparr> submitStatus := Error, isSubmitting := False \<rparr>
           else if Responded False \<in> set outcomes
           then s1\<lparr> submitStatus := Error, isSubmitting := False \<rparr>
           else s1\<lparr> submitStatus := Success, isSubmitting := False \<rparr>)"

definition groupRecipient :: AlertRecipient where
  "groupRecipient =
     \<lparr> staffId = ''GROUP'', staffName = ''Alerta para Grupo'', staffPhone = Some [] \<rparr>"

definition handleGroupAlertSend :: "Env \<Rightarrow> AppState \<Rightarrow> AppState" where
  "handleGroupAlertSend env s =
     (let request = \<lparr> req_url = groupWebhookUrl, req_method = ''POST'',
                      req_contentType = ''application/json'',
                      req_body = GroupBody (groupAlertMessage s) \<rparr>;
          s1 = s\<lparr> sentRequests := sentRequests s @ [request] \<rparr>;
          failed = s1\<lparr> groupSubmitStatus := Error, isSubmittingGroup := False \<rparr>;
          succeeded = s1\<lparr> groupSubmitStatus := Success, isSubmittingGroup := False \<rparr>
      in case fetchOutcome env 0 of
           Threw \<Rightarrow> failed
         | Responded ok \<Rightarrow>
             if \<not> ok then failed
             else (case user s of
                     Some u \<Rightarrow>
                       if addAlertLogOk env
                       then succeeded\<lparr> alertLogs := alertLogs s @
                              [\<lparr> log_eventId = eventId s, log_senderUserId = user_id u,
                                 log_departmentId = None,
                                 log_message = groupAlertMessage s,
                                 log_recipients = [groupRecipient] \<rparr>] \<rparr>
                       else failed
                   | None \<Rightarrow> succeeded))"

text \<open>
  The callbacks that \<open>setTimeout\<close> runs three seconds after a successful send:
  \<open>resetStaffForm(); handleBackToChoice()\<close> for the staff alert and
  \<open>resetGroupForm(); handleBackToChoice()\<close> for the group alert.
\<close>

definition successTimeout :: "AppState \<Rightarrow> AppState" where
  "successTimeout s = handleBackToChoice (resetStaffForm s)"

definition groupSuccessTimeout :: "AppState \<Rightarrow> AppState" where
  "groupSuccessTimeout s = handleBackToChoice (resetGroupForm s)"

subsection \<open>The component as a transition system\<close>

text \<open>
  One event per callback the rendered component can run. The events are not restricted
  to the screen that shows their button, so every trace of the user interface is a trace
  of \<open>run\<close>.
\<close>

datatype Event =
    ChooseAlertType AlertType
  | DepartmentSelect Department
  | StaffToggle string
  | Back
  | BackToChoice
  | ProceedToMessage
  | ChangeAlertMessage string
  | OpenConfirmModal
  | CloseConfirmModal
  | ConfirmAndSend Env
  | SuccessTimeout
  | ChangeGroupAlertMessage string
  | OpenGroupConfirmModal
  | CloseGroupConfirmModal
  | GroupAlertSend Env
  | GroupSuccessTimeout
  | ViewLogs
  | LeaveLogs

fun fire :: "Event \<Rightarrow> AppState \<Rightarrow> AppState" where
  "fire (ChooseAlertType t) s = s\<lparr> alertType := Some t \<rparr>"
| "fire (DepartmentSelect d) s = handleDepartmentSelect d s"
| "fire (StaffToggle sid) s = handleStaffToggle sid s"
| "fire Back s = handleBack s"
| "fire BackToChoice s = handleBackToChoice s"
| "fire ProceedToMessage s = handleProceedToMessage s"
| "fire (ChangeAlertMessage m) s = s\<lparr> alertMessage := m \<rparr>"
| "fire OpenConfirmModal s = handleOpenConfirmModal s"
| "fire CloseConfirmModal s = s\<lparr> isConfirmModalOpen := False \<rparr>"
| "fire (ConfirmAndSend env) s = handleConfirmAndSend env s"
| "fire SuccessTimeout s = successTimeout s"
| "fire (ChangeGroupAlertMessage m) s = s\<lparr> groupAlertMessage := m \<rparr>"
| "fire OpenGroupConfirmModal s = handleOpenGroupConfirmModal s"
| "fire CloseGroupConfirmModal s = s\<lparr> isGroupConfirmModalOpen := False \<rparr>"
| "fire (GroupAlertSend env) s = handleGroupAlertSend env s"
| "fire GroupSuccessTimeout s = groupSuccessTimeout s"
| "fire ViewLogs s = s\<lparr> view := Logs \<rparr>"
| "fire LeaveLogs s = handleBackToChoice (s\<lparr> view := Form \<rparr>)"

definition run :: "Event list \<Rightarrow> AppState \<Rightarrow> AppState" where
  "run es s = fold fire es s"


section \<open>The ranking component (RankingView)\<close>

subsection \<open>Data\<close>

text \<open>
  \<open>ReportSubmission\<close>, \<open>ParticipantCompany\<close> and \<open>StaffActivity\<close> are imported from a
  module that is not among the sources; the records hold the fields that the rankings
  read. \<open>DetailedSale\<close>, \<open>RankedSeller\<close> and \<open>ChartData\<close> are declared by the component.
\<close>

record ReportSubmission =
  r_boothCode :: string
  r_reportLabel :: string
  r_timestamp :: string

record ParticipantCompany =
  c_id :: string
  c_name :: string
  c_boothCode :: string
  c_logoUrl :: "string option"

record StaffActivity =
  a_description :: string
  a_timestamp :: string

record SaleCompany =
  sc_id :: string
  sc_name :: string
  sc_logoUrl :: "string option"

record SaleCollaborator =
  col_id :: string
  col_name :: string
  col_photoUrl :: "string option"
  col_collaboratorCode :: string

record DetailedSale =
  sale_marca :: string
  sale_model :: string
  sale_updatedAt :: string
  sale_company :: "SaleCompany option"
  sale_collaborator :: "SaleCollaborator option"

record RankedSeller =
  seller_id :: string
  seller_name :: string
  seller_photoUrl :: "string option"
  seller_collaboratorCode :: string
  seller_companyName :: string
  seller_companyId :: string
  seller_salesCount :: nat

record ChartData =
  cd_label :: string
  cd_value :: nat
  cd_logoUrl :: "string option"

record CompanyInfo =
  ci_name :: string
  ci_logoUrl :: "string option"

text \<open>
  What \<open>acc[k] = (acc[k] || 0) + 1\<close> can store under a key: a number, or, when the first
  read of \<open>acc[k]\<close> found a function that every object inherits, a string: the source text
  of that function followed by one character \<open>1\<close> for each increment. \<open>NativeText f n\<close> is
  that string for the function named \<open>f\<close> and \<open>n\<close> increments. As a number such a string
  is NaN.
\<close>

datatype CountValue = Number nat | NativeText string nat

fun isNumber :: "CountValue \<Rightarrow> bool" where
  "isNumber (Number n) = True"
| "isNumber (NativeText f n) = False"

fun numberOf :: "CountValue \<Rightarrow> nat" where
  "numberOf (Number n) = n"
| "numberOf (NativeText f n) = 0"

text \<open>
  The text of a native function as V8 prints it (the language fixes its shape and leaves
  the white space to the engine), and the string that \<open>NativeText f n\<close> stands for.
\<close>

definition nativeFunctionText :: "string \<Rightarrow> string" where
  "nativeFunctionText f = ''function '' @ f @ ''() { [native code] }''"

fun countText :: "CountValue \<Rightarrow> string option" where
  "countText (Number n) = None"
| "countText (NativeText f n) = Some (nativeFunctionText f @ replicate n (CHR ''1''))"

text \<open>
  The entries of the visits and occurrences charts and of the sales-by-company ranking
  are declared with a \<open>number\<close> for their count; the declaration is not checked when the
  program runs, and the count is whatever the reducer stored.
\<close>

record CountChartData =
  cc_label :: string
  cc_value :: CountValue
  cc_logoUrl :: "string option"

record RankedCompany =
  rc_id :: string
  rc_name :: string
  rc_salesCount :: CountValue
  rc_logoUrl :: "string option"

subsection \<open>Objects used as dictionaries\<close>

text \<open>
  The reducers accumulate into an object literal \<open>{}\<close>. Such an object has its own
  properties, in the order of their creation, and it inherits the members of
  \<open>Object.prototype\<close>: eleven functions and the accessor \<open>__proto__\<close>. The list below
  gives, for each inherited function, the key and the function's \<open>name\<close>.
\<close>

type_synonym 'v js_object = "(string \<times> 'v) list"

definition inheritedFunctions :: "(string \<times> string) list" where
  "inheritedFunctions =
     [(''constructor'', ''Object''),
      (''__defineGetter__'', ''__defineGetter__''),
      (''__defineSetter__'', ''__defineSetter__''),
      (''hasOwnProperty'', ''hasOwnProperty''),
      (''__lookupGetter__'', ''__lookupGetter__''),
      (''__lookupSetter__'', ''__lookupSetter__''),
      (''isPrototypeOf'', ''isPrototypeOf''),
      (''propertyIsEnumerable'', ''propertyIsEnumerable''),
      (''toString'', ''toString''),
      (''valueOf'', ''valueOf''),
      (''toLocaleString'', ''toLocaleString'')]"

definition inheritedFunction :: "string \<Rightarrow> string option" where
  "inheritedFunction k = map_of inheritedFunctions k"

definition inheritedKey :: "string \<Rightarrow> bool" where
  "inheritedKey k = (k = ''__proto__'' \<or> inheritedFunction k \<noteq> None)"

text \<open>
  Reading \<open>acc[k]\<close>: the own value if there is one, and otherwise what the object
  inherits. The prototype of an accumulator stays \<open>Object.prototype\<close>.
\<close>

datatype 'v Lookup = Own 'v | InheritedFunction string | PrototypeObject | Undefined

definition obj_get :: "'v js_object \<Rightarrow> string \<Rightarrow> 'v Lookup" where
  "obj_get obj k =
     (case map_of obj k of
        Some v \<Rightarrow> Own v
      | None \<Rightarrow>
          if k = ''__proto__'' then PrototypeObject
          else (case inheritedFunction k of
                  Some f \<Rightarrow> InheritedFunction f
                | None \<Rightarrow> Undefined))"

text \<open>
  Creating or overwriting an own property: an existing key keeps its place, a new key is
  appended.
\<close>

fun defineOwn :: "'v js_object \<Rightarrow> string \<Rightarrow> 'v \<Rightarrow> 'v js_object" where
  "defineOwn [] k v = [(k, v)]"
| "defineOwn ((k', v') # kvs) k v =
     (if k' = k then (k', v) # kvs else (k', v') # defineOwn kvs k v)"

text \<open>
  Assigning \<open>acc[k] = v\<close> for a number or a string \<open>v\<close>: the setter of \<open>__proto__\<close> ignores
  a value that is not an object, every other key becomes an own property.
\<close>

definition obj_set :: "'v js_object \<Rightarrow> string \<Rightarrow> 'v \<Rightarrow> 'v js_object" where
  "obj_set obj k v = (if k = ''__proto__'' then obj else defineOwn obj k v)"

text \<open>
  The statement \<open>acc[k] = (acc[k] || 0) + 1\<close>. A number grows by one; \<open>undefined\<close> counts
  as 0; a string gets the character \<open>1\<close> appended; an inherited function is turned into
  its source text before the \<open>1\<close> is appended. Under the key \<open>__proto__\<close> the read gives the
  prototype object, the sum is a string, and the assignment of that string is ignored.
\<close>

definition increment :: "CountValue js_object \<Rightarrow> string \<Rightarrow> CountValue js_object" where
  "increment acc k =
     (case obj_get acc k of
        Own (Number n) \<Rightarrow> obj_set acc k (Number (n + 1))
      | Own (NativeText f n) \<Rightarrow> obj_set acc k (NativeText f (n + 1))
      | InheritedFunction f \<Rightarrow> obj_set acc k (NativeText f 1)
      | PrototypeObject \<Rightarrow> acc
      | Undefined \<Rightarrow> obj_set acc k (Number 1))"

text \<open>
  \<open>Object.entries\<close> and \<open>Object.values\<close> list the own keys that are array indices
  (canonical decimal numerals below \<open>2^32 - 1\<close>) first, in ascending numeric order, and
  then the other own keys in the order of their creation.
\<close>

definition isDigit :: "char \<Rightarrow> bool" where
  "isDigit c = (48 \<le> (of_char c :: nat) \<and> (of_char c :: nat) \<le> 57)"

definition decimalValue :: "string \<Rightarrow> nat" where
  "decimalValue k = foldl (\<lambda>n c. 10 * n + (of_char c - 48)) 0 k"

definition isArrayIndex :: "string \<Rightarrow> bool" where
  "isArrayIndex k =
     (k \<noteq> [] \<and> list_all isDigit k \<and> (length k = 1 \<or> hd k \<noteq> CHR ''0'')
      \<and> decimalValue k < 4294967295)"

definition objectEntries :: "'v js_object \<Rightarrow> (string \<times> 'v) list" where
  "objectEntries obj =
     sort_key (\<lambda>kv. decimalValue (fst kv)) (filter (\<lambda>kv. isArrayIndex (fst kv)) obj)
     @ filter (\<lambda>kv. \<not> isArrayIndex (fst kv)) obj"

subsection \<open>Sorting\<close>

text \<open>
  \<open>xs.sort((a, b) => key(b) - key(a))\<close>: a stable sort by descending key.
\<close>

definition sortDescending :: "('a \<Rightarrow> nat) \<Rightarrow> 'a list \<Rightarrow> 'a list" where
  "sortDescending key xs = sort_key (\<lambda>x. - int (key x)) xs"

text \<open>
  The same call when the key is a stored count. The difference of two numbers orders
  them; a difference that involves a string is NaN, which \<open>sort\<close> takes for 0. If all keys
  are numbers the result is the stable descending sort. If some key is a string and all
  the numbers are equal, every comparison gives 0 and the stable sort keeps the list as it
  is. Otherwise the comparisons contradict each other, and the language leaves the order
  to the engine: \<open>EngineOrder xs\<close> stands for some rearrangement of \<open>xs\<close>.
\<close>

datatype 'a SortResult = Ordered "'a list" | EngineOrder "'a list"

fun entriesOf :: "'a SortResult \<Rightarrow> 'a list" where
  "entriesOf (Ordered xs) = xs"
| "entriesOf (EngineOrder xs) = xs"

definition sortByCountDescending :: "('a \<Rightarrow> CountValue) \<Rightarrow> 'a list \<Rightarrow> 'a SortResult" where
  "sortByCountDescending key xs =
     (if list_all (\<lambda>x. isNumber (key x)) xs
      then Ordered (sort_key (\<lambda>x. - int (numberOf (key x))) xs)
      else if length (remdups (map numberOf (filter isNumber (map key xs)))) \<le> 1
      then Ordered xs
      else EngineOrder xs)"

subsection \<open>The date filter\<close>

definition isSameDay :: "string \<Rightarrow> string \<Rightarrow> bool" where
  "isSameDay dateString filterDate =
     (if dateString = [] \<or> filterDate = [] then False
      else startsWith dateString filterDate)"

definition filteredReports :: "ReportSubmission list \<Rightarrow> string \<Rightarrow> ReportSubmission list" where
  "filteredReports reports dateFilter =
     (if dateFilter = [] then reports
      else filter (\<lambda>r. isSameDay (r_timestamp r) dateFilter) reports)"

text \<open>
  \<open>activities\<close> is a dictionary from staff id to that member's activities; it is only
  ever read by key, so it is a map.
\<close>

definition filteredActivities ::
  "(string \<rightharpoonup> StaffActivity list) \<Rightarrow> string \<Rightarrow> (string \<rightharpoonup> StaffActivity list)" where
  "filteredActivities activities dateFilter =
     (if dateFilter = [] then activities
      else (\<lambda>staffId. map_option (filter (\<lambda>a. isSameDay (a_timestamp a) dateFilter))
                         (activities staffId)))"

definition filteredDetailedSales :: "DetailedSale list \<Rightarrow> string \<Rightarrow> DetailedSale list" where
  "filteredDetailedSales detailedSales dateFilter =
     (if dateFilter = [] then detailedSales
      else filter (\<lambda>s. isSameDay (sale_updatedAt s) dateFilter) detailedSales)"

subsection \<open>The rankings\<close>

text \<open>Each memoized value is a function of its dependency array.\<close>

text \<open>
  \<open>companyInfoMap\<close> is an object literal filled by \<open>acc[company.boothCode] = {name,
  logoUrl}\<close>. The value assigned is an object, so under the key \<open>__proto__\<close> the setter
  installs it as the prototype of the map (in front of \<open>Object.prototype\<close>) instead of
  creating an own property. The map is only read by key: its own properties are a map,
  and \<open>cim_prototype\<close> is the info object installed last, if any.
\<close>

record CompanyInfoMap =
  cim_own :: "string \<rightharpoonup> CompanyInfo"
  cim_prototype :: "CompanyInfo option"

definition companyInfoMap :: "ParticipantCompany list \<Rightarrow> CompanyInfoMap" where
  "companyInfoMap companies =
     fold (\<lambda>company acc.
             if c_boothCode company = ''__proto__''
             then acc\<lparr> cim_prototype :=
                         Some \<lparr> ci_name = c_name company, ci_logoUrl = c_logoUrl company \<rparr> \<rparr>
             else acc\<lparr> cim_own := (cim_own acc)(c_boothCode company \<mapsto>
                         \<lparr> ci_name = c_name company, ci_logoUrl = c_logoUrl company \<rparr>) \<rparr>)
       companies \<lparr> cim_own = Map.empty, cim_prototype = None \<rparr>"

text \<open>
  \<open>companyInfoMap[boothCode]?.name\<close>, with \<open>None\<close> for \<open>undefined\<close>. An own property is
  an info object. The key \<open>__proto__\<close> reads the prototype: the installed info object, or
  \<open>Object.prototype\<close>, which has no \<open>name\<close>. Through an installed info object the keys
  \<open>name\<close> and \<open>logoUrl\<close> read a string or \<open>undefined\<close>, neither of which has a \<open>name\<close>. An
  inherited function has its \<open>name\<close>.
\<close>

definition companyName :: "CompanyInfoMap \<Rightarrow> string \<Rightarrow> string option" where
  "companyName cim boothCode =
     (case cim_own cim boothCode of
        Some info \<Rightarrow> Some (ci_name info)
      | None \<Rightarrow>
          if boothCode = ''__proto__'' then map_option ci_name (cim_prototype cim)
          else if cim_prototype cim \<noteq> None \<and> (boothCode = ''name'' \<or> boothCode = ''logoUrl'')
          then None
          else inheritedFunction boothCode)"

text \<open>\<open>companyInfoMap[boothCode]?.logoUrl\<close>: only an info object has one.\<close>

definition companyLogo :: "CompanyInfoMap \<Rightarrow> string \<Rightarrow> string option" where
  "companyLogo cim boothCode =
     (case cim_own cim boothCode of
        Some info \<Rightarrow> ci_logoUrl info
      | None \<Rightarrow>
          if boothCode = ''__proto__''
          then (case cim_prototype cim of Some info \<Rightarrow> ci_logoUrl info | None \<Rightarrow> None)
          else None)"

text \<open>\<open>companyInfoMap[boothCode]?.name || boothCode\<close>\<close>

definition visitLabel :: "CompanyInfoMap \<Rightarrow> string \<Rightarrow> string" where
  "visitLabel cim boothCode =
     (case companyName cim boothCode of
        None \<Rightarrow> boothCode
      | Some n \<Rightarrow> if n \<noteq> [] then n else boothCode)"

definition visitsData :: "ReportSubmission list \<Rightarrow> CompanyInfoMap \<Rightarrow> CountChartData SortResult" where
  "visitsData frs cim =
     (let counts = fold (\<lambda>report acc. increment acc (r_boothCode report)) frs []
      in sortByCountDescending cc_value
           (map (\<lambda>(boothCode, v).
                   \<lparr> cc_label = visitLabel cim boothCode, cc_value = v,
                     cc_logoUrl = companyLogo cim boothCode \<rparr>)
              (objectEntries counts)))"

definition isInternalLabel :: "string \<Rightarrow> bool" where
  "isInternalLabel l = (startsWith l ''__'' \<and> endsWith l ''__'')"

definition occurrencesData :: "ReportSubmission list \<Rightarrow> CountChartData SortResult" where
  "occurrencesData frs =
     (let counts = fold (\<lambda>report acc.
                           if isInternalLabel (r_reportLabel report) then acc
                           else increment acc (r_reportLabel report)) frs []
      in sortByCountDescending cc_value
           (map (\<lambda>(l, v). \<lparr> cc_label = l, cc_value = v, cc_logoUrl = None \<rparr>)
              (objectEntries counts)))"

text \<open>\<open>(filteredActivities[staff.id] || []).length\<close>\<close>

definition activityCount :: "(string \<rightharpoonup> StaffActivity list) \<Rightarrow> Staff \<Rightarrow> nat" where
  "activityCount fa staff =
     length (case fa (staff_id staff) of None \<Rightarrow> [] | Some acts \<Rightarrow> acts)"

definition staffData :: "Staff list \<Rightarrow> (string \<rightharpoonup> StaffActivity list) \<Rightarrow> ChartData list" where
  "staffData staff fa =
     sortDescending cd_value
       (filter (\<lambda>item. cd_value item > 0)
          (map (\<lambda>m. \<lparr> cd_label = staff_name m, cd_value = activityCount fa m,
                      cd_logoUrl = staff_photoUrl m \<rparr>) staff))"

definition totalSalesCount :: "DetailedSale list \<Rightarrow> nat" where
  "totalSalesCount fds = length fds"

text \<open>\<open>sale.company?.id\<close> and \<open>sale.collaborator?.id\<close> when they are truthy.\<close>

definition companyKey :: "DetailedSale \<Rightarrow> string option" where
  "companyKey sale =
     (case sale_company sale of
        None \<Rightarrow> None
      | Some c \<Rightarrow> if sc_id c \<noteq> [] then Some (sc_id c) else None)"

definition collaboratorKey :: "DetailedSale \<Rightarrow> string option" where
  "collaboratorKey sale =
     (case sale_collaborator sale of
        None \<Rightarrow> None
      | Some col \<Rightarrow> if col_id col \<noteq> [] then Some (col_id col) else None)"

text \<open>The reducer of \<open>rankedCompaniesBySales\<close>.\<close>

definition countCompanySale :: "DetailedSale \<Rightarrow> CountValue js_object \<Rightarrow> CountValue js_object" where
  "countCompanySale sale acc =
     (case companyKey sale of
        None \<Rightarrow> acc
      | Some companyId \<Rightarrow> increment acc companyId)"

text \<open>\<open>new Map(companies.map(c => [c.id, c]))\<close>: a later company replaces an earlier one.\<close>

definition companyMap :: "ParticipantCompany list \<Rightarrow> (string \<rightharpoonup> ParticipantCompany)" where
  "companyMap companies = fold (\<lambda>c m. m(c_id c \<mapsto> c)) companies Map.empty"

definition rankedCompaniesBySales ::
  "DetailedSale list \<Rightarrow> ParticipantCompany list \<Rightarrow> RankedCompany SortResult" where
  "rankedCompaniesBySales fds companies =
     (let salesByCompany = fold countCompanySale fds []
      in sortByCountDescending rc_salesCount
           (map (\<lambda>(companyId, n).
                   \<lparr> rc_id = companyId,
                     rc_name = (case companyMap companies companyId of
                                  None \<Rightarrow> ''Empresa Desconhecida''
                                | Some c \<Rightarrow> if c_name c \<noteq> [] then c_name c
                                            else ''Empresa Desconhecida''),
                     rc_salesCount = n,
                     rc_logoUrl = (case companyMap companies companyId of
                                     None \<Rightarrow> None | Some c \<Rightarrow> c_logoUrl c) \<rparr>)
              (objectEntries salesByCompany)))"

text \<open>
  The reducer of \<open>rankedSellers\<close>: when \<open>acc[collabId]\<close> is falsy the collaborator gets an
  entry with \<open>salesCount\<close> 0, and then \<open>acc[collabId].salesCount\<close> is incremented. Under an
  inherited key \<open>acc[collabId]\<close> is a function or the prototype object, which is truthy:
  no entry is created, and the increment lands on a \<open>salesCount\<close> property of that
  inherited object, outside the accumulator, which stays as it is. The NaN that this write
  leaves on the shared object is falsy, so the reducers read it like an absent property;
  the write itself is an effect on an object outside the values modelled here.
\<close>

definition newSeller :: "DetailedSale \<Rightarrow> SaleCollaborator \<Rightarrow> RankedSeller" where
  "newSeller sale col =
     \<lparr> seller_id = col_id col, seller_name = col_name col,
       seller_photoUrl = col_photoUrl col,
       seller_collaboratorCode = col_collaboratorCode col,
       seller_companyName =
         (case sale_company sale of
            None \<Rightarrow> ''N/A''
          | Some c \<Rightarrow> if sc_name c \<noteq> [] then sc_name c else ''N/A''),
       seller_companyId =
         (case sale_company sale of
            None \<Rightarrow> ''N/A''
          | Some c \<Rightarrow> if sc_id c \<noteq> [] then sc_id c else ''N/A''),
       seller_salesCount = 0 \<rparr>"

definition countSellerSale :: "DetailedSale \<Rightarrow> RankedSeller js_object \<Rightarrow> RankedSeller js_object" where
  "countSellerSale sale acc =
     (case sale_collaborator sale of
        None \<Rightarrow> acc
      | Some col \<Rightarrow>
          if col_id col \<noteq> [] then
            (case obj_get acc (col_id col) of
               Undefined \<Rightarrow>
                 defineOwn acc (col_id col)
                   ((newSeller sale col)\<lparr> seller_salesCount :=
                                             seller_salesCount (newSeller sale col) + 1 \<rparr>)
             | Own entry \<Rightarrow>
                 defineOwn acc (col_id col)
                   (entry\<lparr> seller_salesCount := seller_salesCount entry + 1 \<rparr>)
             | InheritedFunction f \<Rightarrow> acc
             | PrototypeObject \<Rightarrow> acc)
          else acc)"

definition rankedSellers :: "DetailedSale list \<Rightarrow> string \<Rightarrow> RankedSeller list" where
  "rankedSellers fds sellerCompanyFilter =
     (let salesByCollaborator = fold countSellerSale fds [];
          allSellers = map snd (objectEntries salesByCollaborator);
          filtered = (if sellerCompanyFilter = ''all'' then allSellers
                      else filter (\<lambda>seller. seller_companyId seller = sellerCompanyFilter)
                             allSellers)
      in sortDescending seller_salesCount filtered)"

subsection \<open>The rankings as the component shows them\<close>

text \<open>
  The component computes each ranking from the fetched records and the current date
  filter, through the filtered lists.
\<close>

definition visitsRanking ::
  "ReportSubmission list \<Rightarrow> ParticipantCompany list \<Rightarrow> string \<Rightarrow> CountChartData SortResult" where
  "visitsRanking reports companies dateFilter =
     visitsData (filteredReports reports dateFilter) (companyInfoMap companies)"

definition occurrencesRanking ::
  "ReportSubmission list \<Rightarrow> string \<Rightarrow> CountChartData SortResult" where
  "occurrencesRanking reports dateFilter = occurrencesData (filteredReports reports dateFilter)"

definition staffRanking ::
  "Staff list \<Rightarrow> (string \<rightharpoonup> StaffActivity list) \<Rightarrow> string \<Rightarrow> ChartData list" where
  "staffRanking staff activities dateFilter =
     staffData staff (filteredActivities activities dateFilter)"

definition salesByCompanyRanking ::
  "DetailedSale list \<Rightarrow> ParticipantCompany list \<Rightarrow> string \<Rightarrow> RankedCompany SortResult" where
  "salesByCompanyRanking detailedSales companies dateFilter =
     rankedCompaniesBySales (filteredDetailedSales detailedSales dateFilter) companies"

definition salesBySellerRanking ::
  "DetailedSale list \<Rightarrow> string \<Rightarrow> string \<Rightarrow> RankedSeller list" where
  "salesBySellerRanking detailedSales sellerCompanyFilter dateFilter =
     rankedSellers (filteredDetailedSales detailedSales dateFilter) sellerCompanyFilter"

definition displayedTotalSales :: "DetailedSale list \<Rightarrow> string \<Rightarrow> nat" where
  "displayedTotalSales detailedSales dateFilter =
     totalSalesCount (filteredDetailedSales detailedSales dateFilter)"

subsection \<open>Notions used to state the properties\<close>

text \<open>
  The count stored under a key after \<open>n\<close> increments: a number, or for the key of an
  inherited function the text that the increments build.
\<close>

definition countValue :: "string \<Rightarrow> nat \<Rightarrow> CountValue" where
  "countValue k n =
     (case inheritedFunction k of None \<Rightarrow> Number n | Some f \<Rightarrow> NativeText f n)"







section \<open>Sample data\<close>

definition demoDepartment :: Department where
  "demoDepartment = \<lparr> dept_id = ''d1'', dept_name = ''Seguranca'' \<rparr>"

definition demoAna :: Staff where
  "demoAna = \<lparr> staff_id = ''s1'', staff_name = ''Ana'', staff_phone = Some ''5511999990001'',
               staff_departmentId = ''d1'', staff_photoUrl = None \<rparr>"

definition demoBruno :: Staff where
  "demoBruno = \<lparr> staff_id = ''s2'', staff_name = ''Bruno'', staff_phone = None,
                 staff_departmentId = ''d1'', staff_photoUrl = None \<rparr>"

definition demoUser :: User where
  "demoUser = \<lparr> user_id = ''u1'' \<rparr>"

definition allOk :: Env where
  "allOk = \<lparr> fetchOutcome = (\<lambda>i. Responded True), addAlertLogOk = True \<rparr>"

definition demoStart :: AppState where
  "demoStart = initialState ''ev1'' (Some demoUser) [demoAna, demoBruno]"

text \<open>The staff wizard at step 2 with one member selected.\<close>

definition demoStaffChosen :: AppState where
  "demoStaffChosen =
     run [ChooseAlertType StaffAlert, DepartmentSelect demoDepartment, StaffToggle ''s1'']
       demoStart"


text \<open>
  The staff wizard driven to the open confirmation modal: both members are selected, and
  only one of them has a phone number.
\<close>

definition demoCompose :: "Event list" where
  "demoCompose =
     [ChooseAlertType StaffAlert, DepartmentSelect demoDepartment, StaffToggle ''s1'',
      StaffToggle ''s2'', ProceedToMessage, ChangeAlertMessage ''Reuniao as 10h'',
      OpenConfirmModal]"

definition demoReady :: AppState where
  "demoReady = run demoCompose demoStart"

text \<open>The same, when the authentication context holds no user.\<close>

definition demoReadyNoUser :: AppState where
  "demoReadyNoUser = run demoCompose (initialState ''ev1'' None [demoAna, demoBruno])"

definition demoGroupReady :: AppState where
  "demoGroupReady =
     run [ChooseAlertType GroupAlert, ChangeGroupAlertMessage ''Portoes abertos'',
          OpenGroupConfirmModal] demoStart"

definition fetchThrows :: Env where
  "fetchThrows = \<lparr> fetchOutcome = (\<lambda>i. Threw), addAlertLogOk = True \<rparr>"


text \<open>Records of a two-day event, newest first.\<close>

definition demoReports :: "ReportSubmission list" where
  "demoReports =
     [\<lparr> r_boothCode = ''A12'', r_reportLabel = ''Visita'', r_timestamp = ''2024-05-02T10:00:00.000Z'' \<rparr>,
      \<lparr> r_boothCode = ''B07'', r_reportLabel = ''__checkin__'', r_timestamp = ''2024-05-02T09:30:00.000Z'' \<rparr>,
      \<lparr> r_boothCode = ''7'', r_reportLabel = ''Limpeza'', r_timestamp = ''2024-05-01T18:45:00.000Z'' \<rparr>,
      \<lparr> r_boothCode = ''A12'', r_reportLabel = ''Visita'', r_timestamp = ''2024-05-01T11:20:00.000Z'' \<rparr>]"

definition demoCompanies :: "ParticipantCompany list" where
  "demoCompanies =
     [\<lparr> c_id = ''c1'', c_name = ''Acme'', c_boothCode = ''A12'', c_logoUrl = None \<rparr>,
      \<lparr> c_id = ''c2'', c_name = ''Borges'', c_boothCode = ''B07'', c_logoUrl = Some ''b.png'' \<rparr>]"

definition demoNameless :: ParticipantCompany where
  "demoNameless = \<lparr> c_id = ''c3'', c_name = [], c_boothCode = ''B07'', c_logoUrl = None \<rparr>"


definition demoSales :: "DetailedSale list" where
  "demoSales =
     [\<lparr> sale_marca = ''Fiat'', sale_model = ''Argo'', sale_updatedAt = ''2024-05-02T15:00:00.000Z'',
        sale_company = Some \<lparr> sc_id = ''c1'', sc_name = ''Acme'', sc_logoUrl = None \<rparr>,
        sale_collaborator = Some \<lparr> col_id = ''v1'', col_name = ''Caio'', col_photoUrl = None,
                                    col_collaboratorCode = ''001'' \<rparr> \<rparr>,
      \<lparr> sale_marca = ''VW'', sale_model = ''Polo'', sale_updatedAt = ''2024-05-02T16:00:00.000Z'',
        sale_company = None, sale_collaborator = None \<rparr>,
      \<lparr> sale_marca = ''Fiat'', sale_model = ''Mobi'', sale_updatedAt = ''2024-05-01T12:00:00.000Z'',
        sale_company = Some \<lparr> sc_id = ''c1'', sc_name = ''Acme'', sc_logoUrl = None \<rparr>,
        sale_collaborator = Some \<lparr> col_id = ''v1'', col_name = ''Caio'', col_photoUrl = None,
                                    col_collaboratorCode = ''001'' \<rparr> \<rparr>]"

text \<open>A report whose label is the name of a function that every object inherits.\<close>

definition demoInheritedLabel :: ReportSubmission where
  "demoInheritedLabel =
     \<lparr> r_boothCode = ''A12'', r_reportLabel = ''constructor'',
       r_timestamp = ''2024-05-02T10:00:00.000Z'' \<rparr>"




section \<open>Properties of the alert component\<close>

subsection \<open>Effects of the handlers on single fields\<close>

lemma step_handleConfirmAndSend: "step (handleConfirmAndSend env s) = step s"
  by (simp add: handleConfirmAndSend_def Let_def split: option.splits)

lemma step_handleGroupAlertSend: "step (handleGroupAlertSend env s) = step s"
  by (simp add: handleGroupAlertSend_def Let_def split: option.splits FetchOutcome.splits)

lemma step_fire:
  "step (fire e s) =
     (case e of
        DepartmentSelect d \<Rightarrow> 2
      | Back \<Rightarrow> (if step s > 1 then step s - 1 else step s)
      | ProceedToMessage \<Rightarrow> (if selectedStaffIds s \<noteq> {} then 3 else step s)
      | BackToChoice \<Rightarrow> 1
      | SuccessTimeout \<Rightarrow> 1
      | GroupSuccessTimeout \<Rightarrow> 1
      | LeaveLogs \<Rightarrow> 1
      | _ \<Rightarrow> step s)"
  by (cases e)
     (simp_all add: handleDepartmentSelect_def handleStaffToggle_def handleBack_def
        handleBackToChoice_def handleProceedToMessage_def handleOpenConfirmModal_def
        handleOpenGroupConfirmModal_def resetStaffForm_def resetGroupForm_def
        successTimeout_def groupSuccessTimeout_def
        step_handleConfirmAndSend step_handleGroupAlertSend)

lemma step_fire_range:
  assumes "step s \<in> {1, 2, 3}"
  shows "step (fire e s) \<in> {1, 2, 3}"
  using assms by (auto simp: step_fire split: Event.splits)

lemma step_run_range:
  assumes "step s \<in> {1, 2, 3}"
  shows "step (run es s) \<in> {1, 2, 3}"
  using assms unfolding run_def
proof (induction es arbitrary: s)
  case Nil
  then show ?case by simp
next
  case (Cons e es)
  from Cons.prems have "step (fire e s) \<in> {1, 2, 3}" by (rule step_fire_range)
  then show ?case using Cons.IH by simp
qed

subsection \<open>What a submission sends and stores\<close>

lemma outcomes_all_ok:
  "(Threw \<notin> set (map f [0 ..< n]) \<and> Responded False \<notin> set (map f [0 ..< n]))
     \<longleftrightarrow> (\<forall>i < n. f i = Responded True)"
proof
  assume a: "Threw \<notin> set (map f [0 ..< n]) \<and> Responded False \<notin> set (map f [0 ..< n])"
  show "\<forall>i < n. f i = Responded True"
  proof (intro allI impI)
    fix i assume "i < n"
    then have "f i \<in> set (map f [0 ..< n])" by simp
    with a have "f i \<noteq> Threw" "f i \<noteq> Responded False" by auto
    then show "f i = Responded True" by (cases "f i") auto
  qed
next
  assume "\<forall>i < n. f i = Responded True"
  then show "Threw \<notin> set (map f [0 ..< n]) \<and> Responded False \<notin> set (map f [0 ..< n])"
    by auto
qed

lemma sentRequests_handleConfirmAndSend:
  "sentRequests (handleConfirmAndSend env s) =
     sentRequests s @ map (staffRequest (alertMessage s)) (targets s)"
  by (simp add: handleConfirmAndSend_def Let_def split: option.splits)

lemma sentRequests_handleConfirmAndSend_noLog:
  "sentRequests (handleConfirmAndSend_noLog env s) =
     sentRequests s @ map (staffRequest (alertMessage s)) (targets s)"
  by (simp add: handleConfirmAndSend_noLog_def Let_def)

lemma targets_eq:
  "targets s = filter (\<lambda>m. staff_id m \<in> selectedStaffIds s \<and> truthy (staff_phone m)) (staffList s)"
  by (simp add: targets_def selectedStaffDetails_def conj_commute)

lemma alertLogs_handleConfirmAndSend:
  "alertLogs (handleConfirmAndSend env s) =
     (if targets s \<noteq> [] \<and> (\<forall>i < length (targets s). fetchOutcome env i = Responded True)
         \<and> addAlertLogOk env
      then (case (user s, selectedDepartment s) of
              (Some u, Some d) \<Rightarrow> alertLogs s @
                 [\<lparr> log_eventId = eventId s, log_senderUserId = user_id u,
                    log_departmentId = Some (dept_id d), log_message = alertMessage s,
                    log_recipients = map staffRecipient (targets s) \<rparr>]
            | _ \<Rightarrow> alertLogs s)
      else alertLogs s)"
  using outcomes_all_ok [of "fetchOutcome env" "length (targets s)"]
  by (auto simp: handleConfirmAndSend_def Let_def split: option.splits)

lemma submitStatus_handleConfirmAndSend:
  "submitStatus (handleConfirmAndSend env s) =
     (if targets s \<noteq> [] \<and> (\<forall>i < length (targets s). fetchOutcome env i = Responded True)
         \<and> (user s = None \<or> selectedDepartment s = None \<or> addAlertLogOk env)
      then Success else Error)"
  using outcomes_all_ok [of "fetchOutcome env" "length (targets s)"]
  by (auto simp: handleConfirmAndSend_def Let_def split: option.splits)

lemma alertLogs_handleGroupAlertSend:
  "alertLogs (handleGroupAlertSend env s) =
     (if fetchOutcome env 0 = Responded True \<and> addAlertLogOk env
      then (case user s of
              Some u \<Rightarrow> alertLogs s @
                 [\<lparr> log_eventId = eventId s, log_senderUserId = user_id u,
                    log_departmentId = None, log_message = groupAlertMessage s,
                    log_recipients = [groupRecipient] \<rparr>]
            | None \<Rightarrow> alertLogs s)
      else alertLogs s)"
  by (auto simp: handleGroupAlertSend_def Let_def split: option.splits FetchOutcome.splits)

lemma alertLogs_fire_other:
  "(\<forall>env. e \<noteq> ConfirmAndSend env) \<Longrightarrow> (\<forall>env. e \<noteq> GroupAlertSend env) \<Longrightarrow>
   alertLogs (fire e s) = alertLogs s"
  by (cases e)
     (simp_all add: handleDepartmentSelect_def handleStaffToggle_def handleBack_def
        handleBackToChoice_def handleProceedToMessage_def handleOpenConfirmModal_def
        handleOpenGroupConfirmModal_def resetStaffForm_def resetGroupForm_def
        successTimeout_def groupSuccessTimeout_def)

subsection \<open>When a confirmation modal opens\<close>

lemma trim_empty_iff: "trim m = [] \<longleftrightarrow> (\<forall>c \<in> set m. isWhiteSpace c)"
proof
  assume "trim m = []"
  then have a: "\<forall>c \<in> set (dropWhile isWhiteSpace m). isWhiteSpace c"
    by (simp add: trim_def dropWhile_eq_Nil_conv)
  have "dropWhile isWhiteSpace m = []"
  proof (rule ccontr)
    assume ne: "dropWhile isWhiteSpace m \<noteq> []"
    then have "\<not> isWhiteSpace (hd (dropWhile isWhiteSpace m))" by (rule hd_dropWhile)
    moreover from ne have "hd (dropWhile isWhiteSpace m) \<in> set (dropWhile isWhiteSpace m)"
      by simp
    ultimately show False using a by blast
  qed
  then show "\<forall>c \<in> set m. isWhiteSpace c"
    by (simp add: dropWhile_eq_Nil_conv)
next
  assume "\<forall>c \<in> set m. isWhiteSpace c"
  then have "dropWhile isWhiteSpace m = []"
    by (simp add: dropWhile_eq_Nil_conv)
  then show "trim m = []"
    by (simp only: trim_def rev.simps dropWhile.simps)
qed

lemma modal_handleConfirmAndSend:
  "isConfirmModalOpen (handleConfirmAndSend env s) = isConfirmModalOpen s"
  "isGroupConfirmModalOpen (handleConfirmAndSend env s) = isGroupConfirmModalOpen s"
  "alertMessage (handleConfirmAndSend env s) = alertMessage s"
  "groupAlertMessage (handleConfirmAndSend env s) = groupAlertMessage s"
  by (simp_all add: handleConfirmAndSend_def Let_def split: option.splits)

lemma modal_handleGroupAlertSend:
  "isConfirmModalOpen (handleGroupAlertSend env s) = isConfirmModalOpen s"
  "isGroupConfirmModalOpen (handleGroupAlertSend env s) = isGroupConfirmModalOpen s"
  "alertMessage (handleGroupAlertSend env s) = alertMessage s"
  "groupAlertMessage (handleGroupAlertSend env s) = groupAlertMessage s"
  by (simp_all add: handleGroupAlertSend_def Let_def split: option.splits FetchOutcome.splits)

lemmas handler_defs =
  handleDepartmentSelect_def handleStaffToggle_def handleBack_def
  handleBackToChoice_def handleProceedToMessage_def handleOpenConfirmModal_def
  handleOpenGroupConfirmModal_def resetStaffForm_def resetGroupForm_def
  successTimeout_def groupSuccessTimeout_def

lemma staff_modal_opens:
  assumes "\<not> isConfirmModalOpen s" and "isConfirmModalOpen (fire e s)"
  shows "e = OpenConfirmModal \<and> trim (alertMessage s) \<noteq> []
         \<and> alertMessage (fire e s) = alertMessage s"
  using assms
  by (cases e)
     (simp_all add: handler_defs modal_handleConfirmAndSend modal_handleGroupAlertSend
        split: if_splits)

lemma group_modal_opens:
  assumes "\<not> isGroupConfirmModalOpen s" and "isGroupConfirmModalOpen (fire e s)"
  shows "e = OpenGroupConfirmModal \<and> trim (groupAlertMessage s) \<noteq> []
         \<and> groupAlertMessage (fire e s) = groupAlertMessage s"
  using assms
  by (cases e)
     (simp_all add: handler_defs modal_handleConfirmAndSend modal_handleGroupAlertSend
        split: if_splits)

lemma run_snoc: "run (es @ [e]) s = fire e (run es s)"
  by (simp add: run_def)

lemma staff_modal_open_trace:
  assumes "\<not> isConfirmModalOpen s" and "isConfirmModalOpen (run es s)"
  shows "\<exists>k < length es. es ! k = OpenConfirmModal
           \<and> trim (alertMessage (run (take k es) s)) \<noteq> []"
  using assms
proof (induction es rule: rev_induct)
  case Nil
  then show ?case by (simp add: run_def)
next
  case (snoc e es)
  show ?case
  proof (cases "isConfirmModalOpen (run es s)")
    case True
    with snoc obtain k where k: "k < length es" "es ! k = OpenConfirmModal"
        "trim (alertMessage (run (take k es) s)) \<noteq> []"
      by blast
    then have "k < length (es @ [e])" "(es @ [e]) ! k = OpenConfirmModal"
        "trim (alertMessage (run (take k (es @ [e])) s)) \<noteq> []"
      by (simp_all add: nth_append)
    then show ?thesis by blast
  next
    case False
    from snoc.prems(2) have "isConfirmModalOpen (fire e (run es s))"
      by (simp add: run_snoc)
    with False have "e = OpenConfirmModal \<and> trim (alertMessage (run es s)) \<noteq> []"
      using staff_modal_opens by blast
    then have "length es < length (es @ [e])" "(es @ [e]) ! length es = OpenConfirmModal"
        "trim (alertMessage (run (take (length es) (es @ [e])) s)) \<noteq> []"
      by simp_all
    then show ?thesis by blast
  qed
qed

lemma group_modal_open_trace:
  assumes "\<not> isGroupConfirmModalOpen s" and "isGroupConfirmModalOpen (run es s)"
  shows "\<exists>k < length es. es ! k = OpenGroupConfirmModal
           \<and> trim (groupAlertMessage (run (take k es) s)) \<noteq> []"
  using assms
proof (induction es rule: rev_induct)
  case Nil
  then show ?case by (simp add: run_def)
next
  case (snoc e es)
  show ?case
  proof (cases "isGroupConfirmModalOpen (run es s)")
    case True
    with snoc obtain k where k: "k < length es" "es ! k = OpenGroupConfirmModal"
        "trim (groupAlertMessage (run (take k es) s)) \<noteq> []"
      by blast
    then have "k < length (es @ [e])" "(es @ [e]) ! k = OpenGroupConfirmModal"
        "trim (groupAlertMessage (run (take k (es @ [e])) s)) \<noteq> []"
      by (simp_all add: nth_append)
    then show ?thesis by blast
  next
    case False
    from snoc.prems(2) have "isGroupConfirmModalOpen (fire e (run es s))"
      by (simp add: run_snoc)
    with False have "e = OpenGroupConfirmModal \<and> trim (groupAlertMessage (run es s)) \<noteq> []"
      using group_modal_opens by blast
    then have "length es < length (es @ [e])" "(es @ [e]) ! length es = OpenGroupConfirmModal"
        "trim (groupAlertMessage (run (take (length es) (es @ [e])) s)) \<noteq> []"
      by simp_all
    then show ?thesis by blast
  qed
qed

lemmas demo_run_defs =
  demoReady_def demoReadyNoUser_def demoGroupReady_def demoCompose_def demoStart_def
  demoDepartment_def demoAna_def demoBruno_def demoUser_def initialState_def run_def
  allOk_def fetchThrows_def

lemmas demo_defs =
  demoStaffChosen_def demoStart_def demoDepartment_def demoAna_def demoBruno_def
  demoUser_def initialState_def run_def handleDepartmentSelect_def handleStaffToggle_def
  handleProceedToMessage_def handleBack_def

subsection \<open>C6: the wizard is a linear sequence of three steps\<close>

text \<open>
  C6. In every state the component reaches from its initial state, by any sequence of its
  callbacks, the step counter is 1, 2 or 3. Selecting a department sets the step to 2 and
  empties the staff selection. A callback takes the step from 2 to 3 only when the staff
  selection is not empty. Going back lowers a step above 1 by exactly one and leaves
  step 1 where it is, so the step never falls below 1.
\<close>

theorem wizard_steps_linear:
  "step (run es (initialState ev u staff)) \<in> {1, 2, 3}
   \<and> step (handleDepartmentSelect d s) = 2
   \<and> selectedStaffIds (handleDepartmentSelect d s) = {}
   \<and> (step s = 2 \<and> step (fire e s) = 3 \<longrightarrow> selectedStaffIds s \<noteq> {})
   \<and> step (handleProceedToMessage s) = (if selectedStaffIds s \<noteq> {} then 3 else step s)
   \<and> step (handleBack s) = (if 1 < step s then step s - 1 else step s)
   \<and> (1 \<le> step s \<longrightarrow> 1 \<le> step (handleBack s))"
proof -
  have init: "step (initialState ev u staff) \<in> {1, 2, 3}"
    by (simp add: initialState_def)
  have a: "step (run es (initialState ev u staff)) \<in> {1, 2, 3}"
    using init by (rule step_run_range)
  have b: "step s = 2 \<and> step (fire e s) = 3 \<longrightarrow> selectedStaffIds s \<noteq> {}"
    by (auto simp: step_fire split: Event.splits if_splits)
  show ?thesis
    using a b
    by (simp add: handleDepartmentSelect_def handleProceedToMessage_def handleBack_def)
qed

theorem wizard_steps_linear_witness:
  "step (run [ChooseAlertType StaffAlert, DepartmentSelect demoDepartment] demoStart) \<in> {1, 2, 3}
   \<and> step demoStaffChosen = 2
   \<and> step (fire ProceedToMessage demoStaffChosen) = 3
   \<and> selectedStaffIds demoStaffChosen \<noteq> {}
   \<and> 1 \<le> step demoStaffChosen
   \<and> 1 \<le> step (handleBack demoStaffChosen)"
proof -
  have h: "step demoStaffChosen = 2 \<and> step (fire ProceedToMessage demoStaffChosen) = 3"
    by (simp add: demo_defs)
  have g: "1 \<le> step demoStaffChosen"
    by (simp add: demo_defs)
  note t = wizard_steps_linear [of "[ChooseAlertType StaffAlert, DepartmentSelect demoDepartment]"
      "''ev1''" "Some demoUser" "[demoAna, demoBruno]" demoDepartment demoStaffChosen
      ProceedToMessage]
  from t h have sel: "selectedStaffIds demoStaffChosen \<noteq> {}" by blast
  from t g have bk: "1 \<le> step (handleBack demoStaffChosen)" by blast
  from t have rng:
    "step (run [ChooseAlertType StaffAlert, DepartmentSelect demoDepartment] demoStart) \<in> {1, 2, 3}"
    unfolding demoStart_def by blast
  show ?thesis using h g sel bk rng by blast
qed

subsection \<open>C7: the confirmation modal needs a message\<close>

text \<open>
  C7. A callback opens the staff confirmation modal only if it is the submit handler of the
  message form and the composed message, trimmed, is not empty; the same holds for the
  group confirmation modal and the group message. Hence, on every trace from the initial
  state that ends with a modal open, an earlier state of the trace held a non-blank
  message when the modal was requested. A trimmed message is empty exactly when the
  message is empty or consists of white space only.
\<close>

theorem confirm_modal_needs_message:
  "(\<not> isConfirmModalOpen s \<and> isConfirmModalOpen (fire e s) \<longrightarrow>
      e = OpenConfirmModal \<and> trim (alertMessage s) \<noteq> []
      \<and> alertMessage (fire e s) = alertMessage s)
   \<and> (\<not> isGroupConfirmModalOpen s \<and> isGroupConfirmModalOpen (fire e s) \<longrightarrow>
      e = OpenGroupConfirmModal \<and> trim (groupAlertMessage s) \<noteq> []
      \<and> groupAlertMessage (fire e s) = groupAlertMessage s)
   \<and> (isConfirmModalOpen (run es (initialState ev u staff)) \<longrightarrow>
        (\<exists>k < length es. es ! k = OpenConfirmModal
           \<and> trim (alertMessage (run (take k es) (initialState ev u staff))) \<noteq> []))
   \<and> (isGroupConfirmModalOpen (run es (initialState ev u staff)) \<longrightarrow>
        (\<exists>k < length es. es ! k = OpenGroupConfirmModal
           \<and> trim (groupAlertMessage (run (take k es) (initialState ev u staff))) \<noteq> []))
   \<and> (trim m = [] \<longleftrightarrow> (\<forall>c \<in> set m. isWhiteSpace c))"
proof -
  have i: "\<not> isConfirmModalOpen (initialState ev u staff)"
    "\<not> isGroupConfirmModalOpen (initialState ev u staff)"
    by (simp_all add: initialState_def)
  show ?thesis
    using staff_modal_opens [of s e] group_modal_opens [of s e]
      staff_modal_open_trace [OF i(1), of es] group_modal_open_trace [OF i(2), of es]
      trim_empty_iff [of m]
    by blast
qed

theorem confirm_modal_needs_message_witness:
  "isConfirmModalOpen demoReady
   \<and> demoCompose ! 6 = OpenConfirmModal
   \<and> \<not> isConfirmModalOpen (run (take 6 demoCompose) demoStart)
   \<and> trim (alertMessage (run (take 6 demoCompose) demoStart)) \<noteq> []
   \<and> \<not> isConfirmModalOpen (fire OpenConfirmModal demoStaffChosen)
   \<and> trim (alertMessage demoStaffChosen) = []"
proof -
  have a: "\<not> isConfirmModalOpen (run (take 6 demoCompose) demoStart)"
    "isConfirmModalOpen (fire (demoCompose ! 6) (run (take 6 demoCompose) demoStart))"
    "demoCompose ! 6 = OpenConfirmModal"
    "fire (demoCompose ! 6) (run (take 6 demoCompose) demoStart) = demoReady"
    by (simp_all add: demo_run_defs handler_defs trim_def isWhiteSpace_def)
  have b: "trim (alertMessage demoStaffChosen) = []"
    "\<not> isConfirmModalOpen (fire OpenConfirmModal demoStaffChosen)"
    by (simp_all add: demo_defs handler_defs trim_def)
  from confirm_modal_needs_message
         [of "run (take 6 demoCompose) demoStart" "demoCompose ! 6"] a(1,2)
  have "trim (alertMessage (run (take 6 demoCompose) demoStart)) \<noteq> []" by blast
  with a b show ?thesis by simp
qed

subsection \<open>C2: one request per selected staff member with a phone number\<close>

text \<open>
  C2. Confirming the staff alert issues, whatever the webhook answers, exactly the POST
  requests for the selected staff members whose phone number is set, in the order of the
  staff list: one per such member, with the member's name, the member's phone and the
  composed message as its JSON body. All of them are issued before any response is looked
  at, so a failing request does not keep a later one from being sent; selected members
  without a phone number get no request. The earlier revision of the component sends
  the same requests.
\<close>

theorem staff_requests_one_per_phone:
  "sentRequests (handleConfirmAndSend env s) =
     sentRequests s @
     map (\<lambda>m. \<lparr> req_url = staffWebhookUrl, req_method = ''POST'',
                req_contentType = ''application/json'',
                req_body = StaffBody (staff_name m) (staff_phone m) (alertMessage s) \<rparr>)
       (filter (\<lambda>m. staff_id m \<in> selectedStaffIds s \<and> truthy (staff_phone m)) (staffList s))
   \<and> sentRequests (handleConfirmAndSend_noLog env s) = sentRequests (handleConfirmAndSend env s)
   \<and> length (sentRequests (handleConfirmAndSend env s)) =
       length (sentRequests s) +
       length (filter (\<lambda>m. staff_id m \<in> selectedStaffIds s \<and> truthy (staff_phone m)) (staffList s))"
proof -
  have "staffRequest (alertMessage s) =
          (\<lambda>m. \<lparr> req_url = staffWebhookUrl, req_method = ''POST'',
                  req_contentType = ''application/json'',
                  req_body = StaffBody (staff_name m) (staff_phone m) (alertMessage s) \<rparr>)"
    by (rule ext) (simp add: staffRequest_def)
  then show ?thesis
    by (simp add: sentRequests_handleConfirmAndSend sentRequests_handleConfirmAndSend_noLog
          targets_eq)
qed

theorem staff_requests_one_per_phone_witness:
  "sentRequests (handleConfirmAndSend allOk demoReady) =
     [\<lparr> req_url = staffWebhookUrl, req_method = ''POST'',
        req_contentType = ''application/json'',
        req_body = StaffBody ''Ana'' (Some ''5511999990001'') ''Reuniao as 10h'' \<rparr>]
   \<and> selectedStaffIds demoReady = {''s1'', ''s2''}
   \<and> length (sentRequests (handleConfirmAndSend_noLog allOk demoReady)) = 1"
proof -
  have st: "staffList demoReady = [demoAna, demoBruno]" "sentRequests demoReady = []"
    "selectedStaffIds demoReady = {''s1'', ''s2''}" "alertMessage demoReady = ''Reuniao as 10h''"
    by (auto simp: demo_run_defs handler_defs trim_def isWhiteSpace_def)
  show ?thesis
    using staff_requests_one_per_phone [of allOk demoReady]
    by (simp add: st demoAna_def demoBruno_def)
qed

subsection \<open>C5: what an alert log entry records\<close>

text \<open>
  C5. A callback either leaves the stored alert logs as they are or appends one entry.
  The staff submission appends an entry with the event id, the sender's user id, the
  selected department's id, the composed message and one recipient (staff id, name,
  phone) per staff member a request was sent to. The group submission appends an entry
  with the event id, the sender's user id, no department, the group message and the single
  recipient marker with staffId GROUP and an empty phone.
\<close>

theorem alert_log_entry_contents:
  "alertLogs (fire e s) = alertLogs s
   \<or> (\<exists>env u d. e = ConfirmAndSend env \<and> user s = Some u \<and> selectedDepartment s = Some d
        \<and> alertLogs (fire e s) = alertLogs s @
             [\<lparr> log_eventId = eventId s, log_senderUserId = user_id u,
                log_departmentId = Some (dept_id d), log_message = alertMessage s,
                log_recipients =
                  map (\<lambda>m. \<lparr> staffId = staff_id m, staffName = staff_name m,
                             staffPhone = staff_phone m \<rparr>) (targets s) \<rparr>]
        \<and> sentRequests (fire e s) =
             sentRequests s @ map (staffRequest (alertMessage s)) (targets s))
   \<or> (\<exists>env u. e = GroupAlertSend env \<and> user s = Some u
        \<and> alertLogs (fire e s) = alertLogs s @
             [\<lparr> log_eventId = eventId s, log_senderUserId = user_id u,
                log_departmentId = None, log_message = groupAlertMessage s,
                log_recipients =
                  [\<lparr> staffId = ''GROUP'', staffName = ''Alerta para Grupo'',
                     staffPhone = Some [] \<rparr>] \<rparr>])"
proof -
  have r: "staffRecipient = (\<lambda>m. \<lparr> staffId = staff_id m, staffName = staff_name m,
                                   staffPhone = staff_phone m \<rparr>)"
    by (rule ext) (simp add: staffRecipient_def)
  consider (staff) env where "e = ConfirmAndSend env"
    | (grp) env where "e = GroupAlertSend env"
    | (other) "(\<forall>env. e \<noteq> ConfirmAndSend env) \<and> (\<forall>env. e \<noteq> GroupAlertSend env)"
    by blast
  then show ?thesis
  proof cases
    case staff
    then show ?thesis
      by (auto simp: alertLogs_handleConfirmAndSend sentRequests_handleConfirmAndSend r
            split: option.splits)
  next
    case grp
    then show ?thesis
      by (auto simp: alertLogs_handleGroupAlertSend groupRecipient_def split: option.splits)
  next
    case other
    then have "alertLogs (fire e s) = alertLogs s"
      by (simp add: alertLogs_fire_other)
    then show ?thesis by simp
  qed
qed

theorem alert_log_entry_contents_witness:
  "alertLogs (fire (ConfirmAndSend allOk) demoReady) =
     [\<lparr> log_eventId = ''ev1'', log_senderUserId = ''u1'', log_departmentId = Some ''d1'',
        log_message = ''Reuniao as 10h'',
        log_recipients = [\<lparr> staffId = ''s1'', staffName = ''Ana'',
                             staffPhone = Some ''5511999990001'' \<rparr>] \<rparr>]
   \<and> alertLogs (fire (GroupAlertSend allOk) demoGroupReady) =
     [\<lparr> log_eventId = ''ev1'', log_senderUserId = ''u1'', log_departmentId = None,
        log_message = ''Portoes abertos'',
        log_recipients = [\<lparr> staffId = ''GROUP'', staffName = ''Alerta para Grupo'',
                             staffPhone = Some [] \<rparr>] \<rparr>]
   \<and> alertLogs demoReady = []"
proof -
  have st: "staffList demoReady = [demoAna, demoBruno]" "alertLogs demoReady = []"
    "selectedStaffIds demoReady = {''s1'', ''s2''}" "alertMessage demoReady = ''Reuniao as 10h''"
    "user demoReady = Some demoUser" "selectedDepartment demoReady = Some demoDepartment"
    "eventId demoReady = ''ev1''"
    by (auto simp: demo_run_defs handler_defs trim_def isWhiteSpace_def)
  have tg: "targets demoReady = [demoAna]"
    by (simp add: targets_eq st demoAna_def demoBruno_def)
  have gs: "alertLogs demoGroupReady = []" "user demoGroupReady = Some demoUser"
    "eventId demoGroupReady = ''ev1''" "groupAlertMessage demoGroupReady = ''Portoes abertos''"
    by (auto simp: demo_run_defs handler_defs trim_def isWhiteSpace_def)
  have ch1: "alertLogs (fire (ConfirmAndSend allOk) demoReady) \<noteq> alertLogs demoReady"
    by (simp add: alertLogs_handleConfirmAndSend st tg allOk_def)
  have ch2: "alertLogs (fire (GroupAlertSend allOk) demoGroupReady) \<noteq> alertLogs demoGroupReady"
    by (simp add: alertLogs_handleGroupAlertSend gs allOk_def)
  from alert_log_entry_contents [of "ConfirmAndSend allOk" demoReady] ch1
  have a: "alertLogs (fire (ConfirmAndSend allOk) demoReady) =
     [\<lparr> log_eventId = ''ev1'', log_senderUserId = ''u1'', log_departmentId = Some ''d1'',
        log_message = ''Reuniao as 10h'',
        log_recipients = [\<lparr> staffId = ''s1'', staffName = ''Ana'',
                             staffPhone = Some ''5511999990001'' \<rparr>] \<rparr>]"
    by (auto simp: st tg demoAna_def demoUser_def demoDepartment_def)
  from alert_log_entry_contents [of "GroupAlertSend allOk" demoGroupReady] ch2
  have b: "alertLogs (fire (GroupAlertSend allOk) demoGroupReady) =
     [\<lparr> log_eventId = ''ev1'', log_senderUserId = ''u1'', log_departmentId = None,
        log_message = ''Portoes abertos'',
        log_recipients = [\<lparr> staffId = ''GROUP'', staffName = ''Alerta para Grupo'',
                             staffPhone = Some [] \<rparr>] \<rparr>]"
    by (auto simp: gs demoUser_def)
  from a b st(2) show ?thesis by simp
qed

subsection \<open>C1: when the staff submission stores an alert log\<close>

text \<open>
  The claim as stated fails when no user is signed in: every webhook response is ok, the
  flow ends in the success state, and no alert log is stored.
\<close>

theorem staff_alert_logged_iff_all_ok_counterexample:
  "fetchOutcome allOk 0 = Responded True
   \<and> sentRequests (handleConfirmAndSend allOk demoReadyNoUser) =
       [staffRequest ''Reuniao as 10h'' demoAna]
   \<and> submitStatus (handleConfirmAndSend allOk demoReadyNoUser) = Success
   \<and> alertLogs (handleConfirmAndSend allOk demoReadyNoUser) = alertLogs demoReadyNoUser"
proof -
  have st: "staffList demoReadyNoUser = [demoAna, demoBruno]" "sentRequests demoReadyNoUser = []"
    "selectedStaffIds demoReadyNoUser = {''s1'', ''s2''}"
    "alertMessage demoReadyNoUser = ''Reuniao as 10h''"
    "user demoReadyNoUser = None"
    by (auto simp: demo_run_defs handler_defs trim_def isWhiteSpace_def)
  have tg: "targets demoReadyNoUser = [demoAna]"
    by (simp add: targets_eq st demoAna_def demoBruno_def)
  show ?thesis
    by (simp add: alertLogs_handleConfirmAndSend submitStatus_handleConfirmAndSend
          sentRequests_handleConfirmAndSend st tg allOk_def)
qed

text \<open>
  C1 (amended). The staff submission stores an alert log entry exactly when at least one
  selected staff member has a phone number, every webhook response is ok, a user is
  signed in, a department is selected and the call of addAlertLog succeeds; the entry
  holds the event id, the sender, the department, the message and the recipients, and the
  flow ends in the success state. On any failure of the send (no selected staff member has
  a phone number, a fetch throws, or some response is not ok) the flow ends in the error
  state and no alert log is added.
\<close>

theorem staff_alert_logging:
  "(alertLogs (handleConfirmAndSend env s) \<noteq> alertLogs s \<longleftrightarrow>
      targets s \<noteq> [] \<and> (\<forall>i < length (targets s). fetchOutcome env i = Responded True)
      \<and> user s \<noteq> None \<and> selectedDepartment s \<noteq> None \<and> addAlertLogOk env)
   \<and> (alertLogs (handleConfirmAndSend env s) \<noteq> alertLogs s \<longrightarrow>
        (\<exists>entry. alertLogs (handleConfirmAndSend env s) = alertLogs s @ [entry]
           \<and> log_eventId entry = eventId s
           \<and> Some (log_senderUserId entry) = map_option user_id (user s)
           \<and> log_departmentId entry = map_option dept_id (selectedDepartment s)
           \<and> log_message entry = alertMessage s
           \<and> log_recipients entry = map staffRecipient (targets s))
        \<and> submitStatus (handleConfirmAndSend env s) = Success)
   \<and> (targets s = []
        \<or> (\<exists>i < length (targets s). fetchOutcome env i = Threw)
        \<or> (\<exists>i < length (targets s). fetchOutcome env i = Responded False) \<longrightarrow>
        submitStatus (handleConfirmAndSend env s) = Error
        \<and> alertLogs (handleConfirmAndSend env s) = alertLogs s)"
  by (auto simp: alertLogs_handleConfirmAndSend submitStatus_handleConfirmAndSend
        split: option.splits)

theorem staff_alert_logging_witness:
  "alertLogs (handleConfirmAndSend allOk demoReady) \<noteq> alertLogs demoReady
   \<and> submitStatus (handleConfirmAndSend allOk demoReady) = Success
   \<and> targets demoReady = [demoAna]
   \<and> fetchOutcome fetchThrows 0 = Threw
   \<and> submitStatus (handleConfirmAndSend fetchThrows
        demoReady) = Error
   \<and> alertLogs (handleConfirmAndSend fetchThrows
        demoReady) = alertLogs demoReady"
proof -
  have st: "staffList demoReady = [demoAna, demoBruno]" "alertLogs demoReady = []"
    "selectedStaffIds demoReady = {''s1'', ''s2''}" "alertMessage demoReady = ''Reuniao as 10h''"
    "user demoReady = Some demoUser" "selectedDepartment demoReady = Some demoDepartment"
    by (auto simp: demo_run_defs handler_defs trim_def isWhiteSpace_def)
  have tg: "targets demoReady = [demoAna]"
    by (simp add: targets_eq st demoAna_def demoBruno_def)
  have ok: "targets demoReady \<noteq> [] \<and>
      (\<forall>i < length (targets demoReady). fetchOutcome allOk i = Responded True)
      \<and> user demoReady \<noteq> None \<and> selectedDepartment demoReady \<noteq> None \<and> addAlertLogOk allOk"
    by (simp add: tg st allOk_def)
  note t1 = staff_alert_logging [of allOk demoReady]
  from t1 ok have a: "alertLogs (handleConfirmAndSend allOk demoReady) \<noteq> alertLogs demoReady"
    by blast
  with t1 have b: "submitStatus (handleConfirmAndSend allOk demoReady) = Success"
    by blast
  have bad: "\<exists>i < length (targets demoReady).
      fetchOutcome fetchThrows i = Threw"
    by (simp add: tg fetchThrows_def)
  from staff_alert_logging [of "fetchThrows" demoReady] bad
  have c: "submitStatus (handleConfirmAndSend fetchThrows
        demoReady) = Error
   \<and> alertLogs (handleConfirmAndSend fetchThrows
        demoReady) = alertLogs demoReady"
    by blast
  from a b c tg show ?thesis by (simp add: fetchThrows_def)
qed


section \<open>Properties of the ranking component\<close>

subsection \<open>Sorting\<close>

lemma mset_sortDescending: "mset (sortDescending key xs) = mset xs"
  by (simp add: sortDescending_def)



lemmas ranking_eval =
  occurrencesData_def visitsData_def staffData_def increment_def obj_get_def obj_set_def
  inheritedFunction_def inheritedFunctions_def
  isInternalLabel_def startsWith_def endsWith_def objectEntries_def isArrayIndex_def
  isDigit_def decimalValue_def sortDescending_def sortByCountDescending_def
  visitLabel_def companyName_def companyLogo_def
  companyInfoMap_def activityCount_def filteredReports_def filteredActivities_def
  filteredDetailedSales_def isSameDay_def visitsRanking_def occurrencesRanking_def
  staffRanking_def

lemmas sales_eval =
  rankedCompaniesBySales_def rankedSellers_def countCompanySale_def countSellerSale_def
  companyKey_def collaboratorKey_def companyMap_def
  newSeller_def totalSalesCount_def salesByCompanyRanking_def salesBySellerRanking_def
  displayedTotalSales_def

subsection \<open>Counting in an object\<close>

lemma map_of_defineOwn:
  "map_of (defineOwn obj k v) k' = (if k' = k then Some v else map_of obj k')"
  by (induction obj) auto

lemma keys_defineOwn:
  "map fst (defineOwn obj k v) =
     (if k \<in> fst ` set obj then map fst obj else map fst obj @ [k])"
  by (induction obj) fastforce+

lemma distinct_defineOwn:
  "distinct (map fst obj) \<Longrightarrow> distinct (map fst (defineOwn obj k v))"
  by (simp add: keys_defineOwn)

lemma sum_defineOwn:
  fixes g :: "'v \<Rightarrow> nat"
  shows "sum_list (map (\<lambda>kv. g (snd kv)) (defineOwn obj k v))
           + (case map_of obj k of None \<Rightarrow> 0 | Some w \<Rightarrow> g w)
         = sum_list (map (\<lambda>kv. g (snd kv)) obj) + g v"
  by (induction obj) auto

lemma inheritedKey_proto: "inheritedKey ''__proto__''"
  by (simp add: inheritedKey_def)

lemma countValue_plain: "\<not> inheritedKey k \<Longrightarrow> countValue k n = Number n"
  by (simp add: inheritedKey_def countValue_def)

lemma map_of_increment:
  "map_of (increment acc k) k' =
     (if k' = k \<and> k \<noteq> ''__proto__''
      then Some (case map_of acc k of
                   Some (Number n) \<Rightarrow> Number (n + 1)
                 | Some (NativeText f n) \<Rightarrow> NativeText f (n + 1)
                 | None \<Rightarrow> countValue k 1)
      else map_of acc k')"
  by (auto simp: increment_def obj_get_def obj_set_def map_of_defineOwn countValue_def
        split: option.splits CountValue.splits)

lemma distinct_increment:
  "distinct (map fst acc) \<Longrightarrow> distinct (map fst (increment acc k))"
  by (auto simp: increment_def obj_get_def obj_set_def distinct_defineOwn
        split: option.splits CountValue.splits)

text \<open>Counting with a reducer that skips some records and increments the key of the others.\<close>

lemma distinct_count_fold:
  "distinct (map fst acc) \<Longrightarrow>
   distinct (map fst (fold (\<lambda>r a. if skip r then a else increment a (key r)) xs acc))"
  by (induction xs arbitrary: acc) (auto simp: distinct_increment)

lemma countValue_Suc:
  "(case Some (countValue k n) of
      Some (Number m) \<Rightarrow> Number (m + 1)
    | Some (NativeText f m) \<Rightarrow> NativeText f (m + 1)
    | None \<Rightarrow> countValue k 1) = countValue k (Suc n)"
  by (simp add: countValue_def split: option.splits)

lemma map_of_count_fold:
  "map_of (fold (\<lambda>r a. if skip r then a else increment a (key r)) xs []) k =
     (if k = ''__proto__'' \<or> length (filter (\<lambda>r. \<not> skip r \<and> key r = k) xs) = 0 then None
      else Some (countValue k (length (filter (\<lambda>r. \<not> skip r \<and> key r = k) xs))))"
proof (induction xs arbitrary: k rule: rev_induct)
  case Nil
  show ?case by simp
next
  case (snoc x xs)
  let ?A = "fold (\<lambda>r a. if skip r then a else increment a (key r)) xs []"
  let ?n = "\<lambda>k. length (filter (\<lambda>r. \<not> skip r \<and> key r = k) xs)"
  have IH: "map_of ?A k = (if k = ''__proto__'' \<or> ?n k = 0 then None
                           else Some (countValue k (?n k)))" for k
    by (rule snoc.IH)
  show ?case
  proof (cases "skip x")
    case True
    then show ?thesis by (simp add: IH)
  next
    case False
    show ?thesis
    proof (cases "k = key x \<and> key x \<noteq> ''__proto__''")
      case True
      then have k: "k = key x" "k \<noteq> ''__proto__''" by simp_all
      show ?thesis
      proof (cases "?n k = 0")
        case True
        with False k show ?thesis
          by (simp add: map_of_increment IH)
      next
        case nz: False
        have "map_of (increment ?A k) k = Some (countValue k (Suc (?n k)))"
          using k nz countValue_Suc [of k "?n k"]
          by (simp add: map_of_increment IH)
        with False k show ?thesis by simp
      qed
    next
      case other: False
      with False show ?thesis
        by (auto simp: map_of_increment IH)
    qed
  qed
qed

lemma mset_assoc_characterised:
  assumes d: "distinct (map fst S)" and ks: "distinct ks"
    and m: "\<And>k. map_option g (map_of S k) = (if k \<in> set ks then Some (h k) else None)"
  shows "mset (map (\<lambda>kv. (fst kv, g (snd kv))) S) = mset (map (\<lambda>k. (k, h k)) ks)"
proof -
  have "map fst (map (\<lambda>kv. (fst kv, g (snd kv))) S) = map fst S"
    by (simp add: comp_def)
  with d have "distinct (map fst (map (\<lambda>kv. (fst kv, g (snd kv))) S))"
    by (simp only:)
  then have d1: "distinct (map (\<lambda>kv. (fst kv, g (snd kv))) S)"
    by (simp only: distinct_map)
  have "inj_on (\<lambda>k. (k, h k)) (set ks)"
    by (rule inj_onI) simp
  with ks have d2: "distinct (map (\<lambda>k. (k, h k)) ks)"
    by (simp add: distinct_map)
  have "set (map (\<lambda>kv. (fst kv, g (snd kv))) S) = set (map (\<lambda>k. (k, h k)) ks)"
  proof (rule set_eqI)
    fix p :: "'a \<times> 'c"
    obtain k y where p: "p = (k, y)" by (cases p)
    have "p \<in> set (map (\<lambda>kv. (fst kv, g (snd kv))) S)
            \<longleftrightarrow> (\<exists>v. (k, v) \<in> set S \<and> g v = y)"
      by (force simp: p)
    also have "\<dots> \<longleftrightarrow> (\<exists>v. map_of S k = Some v \<and> g v = y)"
      using d by simp
    also have "\<dots> \<longleftrightarrow> map_option g (map_of S k) = Some y"
      by (cases "map_of S k") auto
    also have "\<dots> \<longleftrightarrow> k \<in> set ks \<and> y = h k"
      by (auto simp: m)
    also have "\<dots> \<longleftrightarrow> p \<in> set (map (\<lambda>k. (k, h k)) ks)"
      by (auto simp: p)
    finally show "p \<in> set (map (\<lambda>kv. (fst kv, g (snd kv))) S)
                    \<longleftrightarrow> p \<in> set (map (\<lambda>k. (k, h k)) ks)" .
  qed
  with d1 d2 show ?thesis
    by (simp only: set_eq_iff_mset_eq_distinct)
qed

lemma mset_count_fold:
  "mset (fold (\<lambda>r a. if skip r then a else increment a (key r)) xs []) =
     mset (map (\<lambda>k. (k, countValue k (length (filter (\<lambda>r. \<not> skip r \<and> key r = k) xs))))
             (remdups (filter (\<lambda>k. k \<noteq> ''__proto__'')
                         (map key (filter (\<lambda>r. \<not> skip r) xs)))))"
  (is "mset ?c = mset (map ?f ?ks)")
proof -
  have d: "distinct (map fst ?c)"
    by (rule distinct_count_fold) simp
  have in_ks: "k \<in> set ?ks \<longleftrightarrow>
      k \<noteq> ''__proto__'' \<and> length (filter (\<lambda>r. \<not> skip r \<and> key r = k) xs) \<noteq> 0" for k
    by (auto simp: filter_empty_conv)
  have "mset (map (\<lambda>kv. (fst kv, (\<lambda>v. v) (snd kv))) ?c) = mset (map ?f ?ks)"
  proof (rule mset_assoc_characterised [OF d])
    show "distinct ?ks" by simp
  next
    fix k
    show "map_option (\<lambda>v. v) (map_of ?c k) =
            (if k \<in> set ?ks
             then Some (countValue k (length (filter (\<lambda>r. \<not> skip r \<and> key r = k) xs)))
             else None)"
      unfolding in_ks by (simp add: map_of_count_fold option.map_ident)
  qed
  then show ?thesis by simp
qed

text \<open>Object.entries and the sorts keep the entries.\<close>

lemma mset_objectEntries: "mset (objectEntries obj) = mset obj"
  by (simp add: objectEntries_def)

lemma mset_sortByCountDescending:
  "mset (entriesOf (sortByCountDescending key xs)) = mset xs"
  by (simp add: sortByCountDescending_def)

lemma sortByCountDescending_numbers:
  assumes "\<forall>x \<in> set xs. isNumber (key x)"
  shows "sortByCountDescending key xs = Ordered (entriesOf (sortByCountDescending key xs))"
    and "sorted_wrt (\<lambda>a b. numberOf (key b) \<le> numberOf (key a))
           (entriesOf (sortByCountDescending key xs))"
proof -
  from assms have a: "list_all (\<lambda>x. isNumber (key x)) xs"
    by (simp add: list_all_iff)
  then show "sortByCountDescending key xs = Ordered (entriesOf (sortByCountDescending key xs))"
    by (simp add: sortByCountDescending_def)
  have "sorted (map (\<lambda>x. - int (numberOf (key x))) (sort_key (\<lambda>x. - int (numberOf (key x))) xs))"
    by simp
  then have "sorted_wrt (\<lambda>a b. numberOf (key b) \<le> numberOf (key a))
               (sort_key (\<lambda>x. - int (numberOf (key x))) xs)"
    by (simp add: sorted_map)
  with a show "sorted_wrt (\<lambda>a b. numberOf (key b) \<le> numberOf (key a))
           (entriesOf (sortByCountDescending key xs))"
    by (simp add: sortByCountDescending_def)
qed

lemma mset_ranking:
  "mset (entriesOf (sortByCountDescending key (map mk (objectEntries obj)))) = mset (map mk obj)"
  by (simp add: mset_sortByCountDescending mset_objectEntries)

subsection \<open>The entries of the visits and occurrences rankings\<close>

lemma isInternalLabel_iff:
  "isInternalLabel l \<longleftrightarrow> 2 \<le> length l \<and> take 2 l = ''__'' \<and> drop (length l - 2) l = ''__''"
proof -
  have len: "length ''__'' = (2::nat)"
    by simp
  show ?thesis
    by (simp only: isInternalLabel_def startsWith_def endsWith_def len) blast
qed

lemma proto_internal: "isInternalLabel ''__proto__''"
  by (simp add: isInternalLabel_def startsWith_def endsWith_def)

lemma visits_entries:
  "mset (entriesOf (visitsData frs cim)) =
     mset (map (\<lambda>b. \<lparr> cc_label = visitLabel cim b,
                       cc_value = countValue b (length (filter (\<lambda>r. r_boothCode r = b) frs)),
                       cc_logoUrl = companyLogo cim b \<rparr>)
             (remdups (filter (\<lambda>b. b \<noteq> ''__proto__'') (map r_boothCode frs))))"
proof -
  have "mset (fold (\<lambda>report acc. increment acc (r_boothCode report)) frs []) =
          mset (map (\<lambda>b. (b, countValue b (length (filter (\<lambda>r. r_boothCode r = b) frs))))
                  (remdups (filter (\<lambda>b. b \<noteq> ''__proto__'') (map r_boothCode frs))))"
    using mset_count_fold [of "\<lambda>r. False" r_boothCode frs] by simp
  then show ?thesis
    unfolding visitsData_def Let_def mset_ranking
    by (simp add: multiset.map_comp comp_def)
qed

lemma occurrences_entries:
  "mset (entriesOf (occurrencesData frs)) =
     mset (map (\<lambda>l. \<lparr> cc_label = l,
                       cc_value = countValue l (length (filter (\<lambda>r. r_reportLabel r = l) frs)),
                       cc_logoUrl = None \<rparr>)
             (remdups (filter (\<lambda>l. \<not> isInternalLabel l) (map r_reportLabel frs))))"
proof -
  let ?skip = "\<lambda>r. isInternalLabel (r_reportLabel r)"
  let ?mk = "\<lambda>(l, v). \<lparr> cc_label = l, cc_value = v, cc_logoUrl = None \<rparr>"
  let ?ls = "remdups (filter (\<lambda>l. \<not> isInternalLabel l) (map r_reportLabel frs))"
  have "filter (\<lambda>k. k \<noteq> ''__proto__'') (filter (\<lambda>l. \<not> isInternalLabel l) (map r_reportLabel frs))
          = filter (\<lambda>l. \<not> isInternalLabel l) (map r_reportLabel frs)"
    using proto_internal by (auto intro!: filter_cong simp del: filter_filter simp add: filter_id_conv)
  then have ks: "remdups (filter (\<lambda>k. k \<noteq> ''__proto__'')
                   (map r_reportLabel (filter (\<lambda>r. \<not> ?skip r) frs))) = ?ls"
    by (simp only: filter_map comp_def)
  have "mset (entriesOf (occurrencesData frs)) =
          mset (map ?mk (map (\<lambda>k. (k, countValue k
                  (length (filter (\<lambda>r. \<not> ?skip r \<and> r_reportLabel r = k) frs)))) ?ls))"
    unfolding occurrencesData_def Let_def mset_ranking
    using mset_count_fold [of ?skip r_reportLabel frs]
    by (simp only: ks mset_map)
  also have "map ?mk (map (\<lambda>k. (k, countValue k
                  (length (filter (\<lambda>r. \<not> ?skip r \<and> r_reportLabel r = k) frs)))) ?ls)
      = map (\<lambda>l. \<lparr> cc_label = l,
                       cc_value = countValue l (length (filter (\<lambda>r. r_reportLabel r = l) frs)),
                       cc_logoUrl = None \<rparr>) ?ls"
  proof -
    have "length (filter (\<lambda>r. \<not> ?skip r \<and> r_reportLabel r = l) frs)
            = length (filter (\<lambda>r. r_reportLabel r = l) frs)" if "l \<in> set ?ls" for l
    proof -
      from that have "\<not> isInternalLabel l" by simp
      then have "(\<lambda>r. \<not> ?skip r \<and> r_reportLabel r = l) = (\<lambda>r. r_reportLabel r = l)"
        by auto
      then show ?thesis
        by (rule arg_cong [where f = "\<lambda>P. length (filter P frs)"])
    qed
    then show ?thesis by simp
  qed
  finally show ?thesis .
qed

lemma find_snoc:
  "find P (xs @ [x]) =
     (case find P xs of None \<Rightarrow> (if P x then Some x else None) | Some y \<Rightarrow> Some y)"
  by (induction xs) auto

lemma fold_upd_find:
  "fold (\<lambda>c acc. acc(key c \<mapsto> val c)) cs m b =
     (case find (\<lambda>c. key c = b) (rev cs) of None \<Rightarrow> m b | Some c \<Rightarrow> Some (val c))"
  by (induction cs arbitrary: m) (auto simp: find_snoc split: option.splits)

lemma cim_own_fold:
  assumes "b \<noteq> ''__proto__''"
  shows "cim_own (fold (\<lambda>company acc.
             if c_boothCode company = ''__proto__''
             then acc\<lparr> cim_prototype :=
                         Some \<lparr> ci_name = c_name company, ci_logoUrl = c_logoUrl company \<rparr> \<rparr>
             else acc\<lparr> cim_own := (cim_own acc)(c_boothCode company \<mapsto>
                         \<lparr> ci_name = c_name company, ci_logoUrl = c_logoUrl company \<rparr>) \<rparr>)
           cs acc) b =
     (case find (\<lambda>c. c_boothCode c = b) (rev cs) of
        None \<Rightarrow> cim_own acc b
      | Some c \<Rightarrow> Some \<lparr> ci_name = c_name c, ci_logoUrl = c_logoUrl c \<rparr>)"
  using assms
  by (induction cs arbitrary: acc) (auto simp: find_snoc split: option.splits)

lemma companyInfoMap_own:
  "b \<noteq> ''__proto__'' \<Longrightarrow>
   cim_own (companyInfoMap companies) b =
     (case find (\<lambda>c. c_boothCode c = b) (rev companies) of
        None \<Rightarrow> None
      | Some c \<Rightarrow> Some \<lparr> ci_name = c_name c, ci_logoUrl = c_logoUrl c \<rparr>)"
  by (simp add: companyInfoMap_def cim_own_fold split: option.splits)

lemma visitLabel_plain:
  assumes "\<not> inheritedKey b"
  shows "visitLabel (companyInfoMap companies) b =
     (case find (\<lambda>c. c_boothCode c = b) (rev companies) of
        None \<Rightarrow> b
      | Some c \<Rightarrow> if c_name c \<noteq> [] then c_name c else b)"
proof -
  from assms have p: "b \<noteq> ''__proto__''" "inheritedFunction b = None"
    by (auto simp: inheritedKey_def)
  show ?thesis
    by (simp add: visitLabel_def companyName_def companyInfoMap_own p split: option.splits)
qed

lemma companyLogo_plain:
  assumes "\<not> inheritedKey b"
  shows "companyLogo (companyInfoMap companies) b =
     (case find (\<lambda>c. c_boothCode c = b) (rev companies) of
        None \<Rightarrow> None
      | Some c \<Rightarrow> c_logoUrl c)"
proof -
  from assms have p: "b \<noteq> ''__proto__''"
    by (auto simp: inheritedKey_def)
  show ?thesis
    by (simp add: companyLogo_def companyInfoMap_own p split: option.splits)
qed

lemmas key_eval = inheritedKey_def inheritedFunction_def inheritedFunctions_def

subsection \<open>The reducers of the sales rankings\<close>




lemma countCompanySale_null: "sale_company sale = None \<Longrightarrow> countCompanySale sale acc = acc"
  by (simp add: countCompanySale_def companyKey_def)

lemma countSellerSale_null:
  "sale_collaborator sale = None \<Longrightarrow> countSellerSale sale acc = acc"
  by (simp add: countSellerSale_def)



text \<open>With ordinary company ids every stored count is a number.\<close>

lemma set_defineOwn: "set (defineOwn obj k v) \<subseteq> insert (k, v) (set obj)"
  by (induction obj) (auto split: if_splits)

lemma numbers_increment:
  assumes "\<not> inheritedKey k" and "\<forall>kv \<in> set acc. isNumber (snd kv)"
  shows "(\<forall>kv \<in> set (increment acc k). isNumber (snd kv))
         \<and> sum_list (map (\<lambda>kv. numberOf (snd kv)) (increment acc k))
             = sum_list (map (\<lambda>kv. numberOf (snd kv)) acc) + 1"
proof -
  from assms(1) have p: "k \<noteq> ''__proto__''" "inheritedFunction k = None"
    by (auto simp: inheritedKey_def)
  show ?thesis
  proof (cases "map_of acc k")
    case None
    then have i: "increment acc k = defineOwn acc k (Number 1)"
      by (simp add: increment_def obj_get_def obj_set_def p)
    have "\<forall>kv \<in> set (defineOwn acc k (Number 1)). isNumber (snd kv)"
      using set_defineOwn [of acc k "Number 1"] assms(2) by auto
    moreover have "sum_list (map (\<lambda>kv. numberOf (snd kv)) (defineOwn acc k (Number 1)))
             = sum_list (map (\<lambda>kv. numberOf (snd kv)) acc) + 1"
      using sum_defineOwn [of numberOf acc k "Number 1"] None by simp
    ultimately show ?thesis unfolding i by blast
  next
    case (Some v)
    then have "(k, v) \<in> set acc" by (rule map_of_SomeD)
    with assms(2) have "isNumber v" by auto
    then obtain n where v: "v = Number n" by (cases v) auto
    from Some v have i: "increment acc k = defineOwn acc k (Number (n + 1))"
      by (simp add: increment_def obj_get_def obj_set_def p)
    have "\<forall>kv \<in> set (defineOwn acc k (Number (n + 1))). isNumber (snd kv)"
      using set_defineOwn [of acc k "Number (n + 1)"] assms(2) by auto
    moreover have "sum_list (map (\<lambda>kv. numberOf (snd kv)) (defineOwn acc k (Number (n + 1))))
             = sum_list (map (\<lambda>kv. numberOf (snd kv)) acc) + 1"
      using sum_defineOwn [of numberOf acc k "Number (n + 1)"] Some v by simp
    ultimately show ?thesis unfolding i by blast
  qed
qed

lemma numbers_company_fold:
  assumes "\<forall>s \<in> set fds. \<forall>k. companyKey s = Some k \<longrightarrow> \<not> inheritedKey k"
    and "\<forall>kv \<in> set acc. isNumber (snd kv)"
  shows "(\<forall>kv \<in> set (fold countCompanySale fds acc). isNumber (snd kv))
         \<and> sum_list (map (\<lambda>kv. numberOf (snd kv)) (fold countCompanySale fds acc))
             = sum_list (map (\<lambda>kv. numberOf (snd kv)) acc)
               + length (filter (\<lambda>s. companyKey s \<noteq> None) fds)"
  using assms
proof (induction fds arbitrary: acc)
  case Nil
  then show ?case by simp
next
  case (Cons s fds)
  show ?case
  proof (cases "companyKey s")
    case None
    then have "countCompanySale s acc = acc" by (simp add: countCompanySale_def)
    with None Cons show ?thesis by simp
  next
    case (Some k)
    with Cons.prems(1) have "\<not> inheritedKey k" by simp
    from numbers_increment [OF this Cons.prems(2)] Some
    have st: "\<forall>kv \<in> set (countCompanySale s acc). isNumber (snd kv)"
      "sum_list (map (\<lambda>kv. numberOf (snd kv)) (countCompanySale s acc))
         = sum_list (map (\<lambda>kv. numberOf (snd kv)) acc) + 1"
      by (simp_all add: countCompanySale_def)
    from Cons.prems(1) have rest: "\<forall>s \<in> set fds. \<forall>k. companyKey s = Some k \<longrightarrow> \<not> inheritedKey k"
      by simp
    from Cons.IH [OF rest st(1)] st(2) Some show ?thesis by simp
  qed
qed

lemma sum_list_mset_cong:
  fixes f :: "'a \<Rightarrow> nat"
  assumes "mset xs = mset ys"
  shows "sum_list (map f xs) = sum_list (map f ys)"
proof -
  have "sum_list (map f xs) = sum_mset (image_mset f (mset xs))"
    by (metis mset_map sum_mset_sum_list)
  also have "\<dots> = sum_mset (image_mset f (mset ys))"
    by (simp add: assms)
  also have "\<dots> = sum_list (map f ys)"
    by (metis mset_map sum_mset_sum_list)
  finally show ?thesis .
qed

lemma company_numbers:
  assumes "\<forall>s \<in> set fds. \<forall>k. companyKey s = Some k \<longrightarrow> \<not> inheritedKey k"
  shows "(\<forall>e \<in> set (entriesOf (rankedCompaniesBySales fds companies)). isNumber (rc_salesCount e))
         \<and> sum_list (map (\<lambda>e. numberOf (rc_salesCount e))
                      (entriesOf (rankedCompaniesBySales fds companies)))
             = length (filter (\<lambda>s. companyKey s \<noteq> None) fds)"
proof -
  let ?mk = "\<lambda>(companyId, n).
                   \<lparr> rc_id = companyId,
                     rc_name = (case companyMap companies companyId of
                                  None \<Rightarrow> ''Empresa Desconhecida''
                                | Some c \<Rightarrow> if c_name c \<noteq> [] then c_name c
                                            else ''Empresa Desconhecida''),
                     rc_salesCount = n,
                     rc_logoUrl = (case companyMap companies companyId of
                                     None \<Rightarrow> None | Some c \<Rightarrow> c_logoUrl c) \<rparr>"
  let ?C = "fold countCompanySale fds []"
  from numbers_company_fold [OF assms, of "[]"]
  have n: "\<forall>kv \<in> set ?C. isNumber (snd kv)"
    and s: "sum_list (map (\<lambda>kv. numberOf (snd kv)) ?C) = length (filter (\<lambda>s. companyKey s \<noteq> None) fds)"
    by simp_all
  have m: "mset (entriesOf (rankedCompaniesBySales fds companies)) = mset (map ?mk ?C)"
    unfolding rankedCompaniesBySales_def Let_def by (rule mset_ranking)
  then have "set (entriesOf (rankedCompaniesBySales fds companies)) = set (map ?mk ?C)"
    by (rule mset_eq_setD)
  with n have a: "\<forall>e \<in> set (entriesOf (rankedCompaniesBySales fds companies)). isNumber (rc_salesCount e)"
    by (auto simp: case_prod_unfold)
  have "sum_list (map (\<lambda>e. numberOf (rc_salesCount e)) (entriesOf (rankedCompaniesBySales fds companies)))
          = sum_list (map (\<lambda>e. numberOf (rc_salesCount e)) (map ?mk ?C))"
    using m by (rule sum_list_mset_cong)
  also have "map (\<lambda>e. numberOf (rc_salesCount e)) (map ?mk ?C) = map (\<lambda>kv. numberOf (snd kv)) ?C"
    by (simp add: case_prod_unfold)
  finally show ?thesis using a s by simp
qed



lemma seller_step:
  "map_option (\<lambda>e. (seller_id e, seller_salesCount e)) (map_of (countSellerSale x A) k) =
     (if collaboratorKey x = Some k \<and> (map_of A k \<noteq> None \<or> \<not> inheritedKey k)
      then Some (case map_of A k of
                   None \<Rightarrow> (k, 1)
                 | Some e \<Rightarrow> (seller_id e, seller_salesCount e + 1))
      else map_option (\<lambda>e. (seller_id e, seller_salesCount e)) (map_of A k))"
proof (cases "collaboratorKey x")
  case None
  then have "countSellerSale x A = A"
    by (auto simp: countSellerSale_def collaboratorKey_def split: option.splits if_splits)
  with None show ?thesis by simp
next
  case (Some c)
  then obtain col where col: "sale_collaborator x = Some col" "col_id col = c" "c \<noteq> []"
    by (auto simp: collaboratorKey_def split: option.splits if_splits)
  show ?thesis
  proof (cases "map_of A c")
    case own: (Some e)
    then have "countSellerSale x A =
        defineOwn A c (e\<lparr> seller_salesCount := seller_salesCount e + 1 \<rparr>)"
      by (simp add: countSellerSale_def col obj_get_def)
    with Some own show ?thesis
      by (simp add: map_of_defineOwn)
  next
    case None
    show ?thesis
    proof (cases "inheritedKey c")
      case True
      then have "countSellerSale x A = A"
        by (auto simp: countSellerSale_def col obj_get_def None inheritedKey_def)
      with Some None True show ?thesis by auto
    next
      case False
      then have "countSellerSale x A =
          defineOwn A c ((newSeller x col)\<lparr> seller_salesCount :=
                                             seller_salesCount (newSeller x col) + 1 \<rparr>)"
        by (simp add: countSellerSale_def col obj_get_def None inheritedKey_def)
      with Some None False col show ?thesis
        by (simp add: map_of_defineOwn newSeller_def)
    qed
  qed
qed

lemma seller_lookup:
  "map_option (\<lambda>e. (seller_id e, seller_salesCount e)) (map_of (fold countSellerSale xs []) k) =
     (if inheritedKey k \<or> length (filter (\<lambda>s. collaboratorKey s = Some k) xs) = 0 then None
      else Some (k, length (filter (\<lambda>s. collaboratorKey s = Some k) xs)))"
proof (induction xs arbitrary: k rule: rev_induct)
  case Nil
  show ?case by simp
next
  case (snoc x xs)
  let ?A = "fold countSellerSale xs []"
  let ?n = "length (filter (\<lambda>s. collaboratorKey s = Some k) xs)"
  let ?p = "\<lambda>e. (seller_id e, seller_salesCount e)"
  have IH: "map_option ?p (map_of ?A k) = (if inheritedKey k \<or> ?n = 0 then None else Some (k, ?n))"
    by (rule snoc.IH)
  have f: "fold countSellerSale (xs @ [x]) [] = countSellerSale x ?A"
    by simp
  show ?case
  proof (cases "collaboratorKey x = Some k")
    case False
    then show ?thesis
      unfolding f seller_step by (simp add: IH)
  next
    case True
    show ?thesis
    proof (cases "inheritedKey k")
      case inh: True
      with IH have "map_of ?A k = None" by simp
      with True inh show ?thesis
        unfolding f seller_step by simp
    next
      case plain: False
      show ?thesis
      proof (cases "map_of ?A k")
        case None
        with IH plain have "?n = 0" by (simp split: if_splits)
        with True plain None show ?thesis
          unfolding f seller_step by simp
      next
        case (Some e)
        with IH plain have "?p e = (k, ?n)" "?n \<noteq> 0" by (simp_all split: if_splits)
        with True plain Some show ?thesis
          unfolding f seller_step by simp
      qed
    qed
  qed
qed


lemma seller_filter:
  "mset (rankedSellers fds flt) =
     mset (filter (\<lambda>e. flt = ''all'' \<or> seller_companyId e = flt) (rankedSellers fds ''all''))"
  by (simp add: rankedSellers_def Let_def mset_sortDescending)

lemma sum_seller_fold:
  "sum_list (map (\<lambda>kv. seller_salesCount (snd kv)) (fold countSellerSale xs [])) =
     length (filter (\<lambda>s. case collaboratorKey s of None \<Rightarrow> False
                          | Some k \<Rightarrow> \<not> inheritedKey k) xs)"
proof (induction xs rule: rev_induct)
  case Nil
  show ?case by simp
next
  case (snoc x xs)
  let ?A = "fold countSellerSale xs []"
  let ?g = "\<lambda>kv. seller_salesCount (snd kv)"
  have f: "fold countSellerSale (xs @ [x]) [] = countSellerSale x ?A"
    by simp
  have inh: "map_of ?A k = None" if "inheritedKey k" for k
    using seller_lookup [of xs k] that by simp
  show ?case
  proof (cases "collaboratorKey x")
    case None
    then have "countSellerSale x ?A = ?A"
      by (auto simp: countSellerSale_def collaboratorKey_def split: option.splits if_splits)
    with None snoc.IH show ?thesis by (simp add: f)
  next
    case (Some c)
    then obtain col where col: "sale_collaborator x = Some col" "col_id col = c" "c \<noteq> []"
      by (auto simp: collaboratorKey_def split: option.splits if_splits)
    show ?thesis
    proof (cases "map_of ?A c")
      case own: (Some e)
      with inh have plain: "\<not> inheritedKey c" by auto
      from own have "countSellerSale x ?A =
          defineOwn ?A c (e\<lparr> seller_salesCount := seller_salesCount e + 1 \<rparr>)"
        by (simp add: countSellerSale_def col obj_get_def)
      moreover from sum_defineOwn [of seller_salesCount ?A c
          "e\<lparr> seller_salesCount := seller_salesCount e + 1 \<rparr>"] own
      have "sum_list (map ?g (defineOwn ?A c (e\<lparr> seller_salesCount := seller_salesCount e + 1 \<rparr>)))
              = sum_list (map ?g ?A) + 1"
        by simp
      ultimately show ?thesis
        using Some plain snoc.IH by (simp add: f)
    next
      case None
      show ?thesis
      proof (cases "inheritedKey c")
        case True
        then have "countSellerSale x ?A = ?A"
          by (auto simp: countSellerSale_def col obj_get_def None inheritedKey_def)
        with Some True snoc.IH show ?thesis by (simp add: f)
      next
        case False
        let ?new = "(newSeller x col)\<lparr> seller_salesCount :=
                                             seller_salesCount (newSeller x col) + 1 \<rparr>"
        from False have "countSellerSale x ?A = defineOwn ?A c ?new"
          by (simp add: countSellerSale_def col obj_get_def None inheritedKey_def)
        moreover from sum_defineOwn [of seller_salesCount ?A c ?new] None
        have "sum_list (map ?g (defineOwn ?A c ?new)) = sum_list (map ?g ?A) + 1"
          by (simp add: newSeller_def)
        ultimately show ?thesis
          using Some False snoc.IH by (simp add: f)
      qed
    qed
  qed
qed

lemma sum_rankedSellers_all:
  "sum_list (map seller_salesCount (rankedSellers fds ''all'')) =
     length (filter (\<lambda>s. case collaboratorKey s of None \<Rightarrow> False
                          | Some k \<Rightarrow> \<not> inheritedKey k) fds)"
proof -
  let ?S = "fold countSellerSale fds []"
  have "mset (rankedSellers fds ''all'') = mset (map snd ?S)"
    by (simp add: rankedSellers_def Let_def mset_sortDescending mset_objectEntries)
  then have "sum_list (map seller_salesCount (rankedSellers fds ''all''))
               = sum_list (map seller_salesCount (map snd ?S))"
    by (rule sum_list_mset_cong)
  also have "\<dots> = sum_list (map (\<lambda>kv. seller_salesCount (snd kv)) ?S)"
    by (simp add: comp_def)
  finally show ?thesis
    by (simp only: sum_seller_fold)
qed

lemma sum_list_filter_le:
  fixes f :: "'a \<Rightarrow> nat"
  shows "sum_list (map f (filter P xs)) \<le> sum_list (map f xs)"
  by (induction xs) auto

lemma sum_rankedSellers_le:
  "sum_list (map seller_salesCount (rankedSellers fds flt))
     \<le> sum_list (map seller_salesCount (rankedSellers fds ''all''))"
proof -
  have "sum_list (map seller_salesCount (rankedSellers fds flt)) =
          sum_list (map seller_salesCount
            (filter (\<lambda>e. flt = ''all'' \<or> seller_companyId e = flt) (rankedSellers fds ''all'')))"
    by (rule sum_list_mset_cong) (rule seller_filter)
  also have "\<dots> \<le> sum_list (map seller_salesCount (rankedSellers fds ''all''))"
    by (rule sum_list_filter_le)
  finally show ?thesis .
qed

subsection \<open>The date filter\<close>








subsection \<open>C3: the visits ranking\<close>

text \<open>
  C3, as stated, fails for a company whose name is empty: the group of its booth code is
  labelled with the booth code, not with the company's name.
\<close>

theorem visits_label_is_company_name_counterexample:
  "c_boothCode demoNameless = ''B07''
   \<and> c_name demoNameless = []
   \<and> visitsRanking [\<lparr> r_boothCode = ''B07'', r_reportLabel = ''Visita'',
                        r_timestamp = ''2024-05-02T09:30:00.000Z'' \<rparr>] [demoNameless] [] =
       Ordered [\<lparr> cc_label = ''B07'', cc_value = Number 1, cc_logoUrl = None \<rparr>]"
  by (simp add: demoNameless_def ranking_eval)

text \<open>
  C3 (amended). Let no date-filtered report have a booth code that is the name of a member
  every object inherits (\<open>inheritedKey\<close>). Then the visits ranking has exactly one group
  for each booth code that occurs among the date-filtered reports, valued with the number
  of those reports. The group is labelled with the name of the participant company of that
  booth code (the last such company of the fetched list), and with the booth code itself
  when no company has that booth code or that company's name is empty. The groups are in
  descending order of value.
\<close>

theorem visits_ranking:
  assumes "\<forall>r \<in> set (filteredReports reports d). \<not> inheritedKey (r_boothCode r)"
  shows "visitsRanking reports companies d = Ordered (entriesOf (visitsRanking reports companies d))
   \<and> mset (entriesOf (visitsRanking reports companies d)) =
     mset (map (\<lambda>b. \<lparr> cc_label =
                         (case find (\<lambda>c. c_boothCode c = b) (rev companies) of
                            None \<Rightarrow> b
                          | Some c \<Rightarrow> if c_name c \<noteq> [] then c_name c else b),
                       cc_value = Number (length (filter (\<lambda>r. r_boothCode r = b)
                                                    (filteredReports reports d))),
                       cc_logoUrl =
                         (case find (\<lambda>c. c_boothCode c = b) (rev companies) of
                            None \<Rightarrow> None
                          | Some c \<Rightarrow> c_logoUrl c) \<rparr>)
             (remdups (map r_boothCode (filteredReports reports d))))
   \<and> sorted_wrt (\<lambda>a b. numberOf (cc_value b) \<le> numberOf (cc_value a))
        (entriesOf (visitsRanking reports companies d))"
proof -
  let ?frs = "filteredReports reports d"
  let ?cim = "companyInfoMap companies"
  let ?bs = "remdups (map r_boothCode ?frs)"
  have plain: "\<not> inheritedKey b" if "b \<in> set ?bs" for b
    using that assms by auto
  have ks: "remdups (filter (\<lambda>b. b \<noteq> ''__proto__'') (map r_boothCode ?frs)) = ?bs"
  proof -
    have "\<forall>b \<in> set (map r_boothCode ?frs). b \<noteq> ''__proto__''"
      using assms inheritedKey_proto by auto
    then have "filter (\<lambda>b. b \<noteq> ''__proto__'') (map r_boothCode ?frs) = map r_boothCode ?frs"
      by (simp only: filter_id_conv)
    then show ?thesis by simp
  qed
  have m: "mset (entriesOf (visitsRanking reports companies d)) =
     mset (map (\<lambda>b. \<lparr> cc_label = visitLabel ?cim b,
                       cc_value = countValue b (length (filter (\<lambda>r. r_boothCode r = b) ?frs)),
                       cc_logoUrl = companyLogo ?cim b \<rparr>) ?bs)"
    by (simp only: visitsRanking_def visits_entries ks)
  have e: "map (\<lambda>b. \<lparr> cc_label = visitLabel ?cim b,
                       cc_value = countValue b (length (filter (\<lambda>r. r_boothCode r = b) ?frs)),
                       cc_logoUrl = companyLogo ?cim b \<rparr>) ?bs =
           map (\<lambda>b. \<lparr> cc_label =
                         (case find (\<lambda>c. c_boothCode c = b) (rev companies) of
                            None \<Rightarrow> b
                          | Some c \<Rightarrow> if c_name c \<noteq> [] then c_name c else b),
                       cc_value = Number (length (filter (\<lambda>r. r_boothCode r = b) ?frs)),
                       cc_logoUrl =
                         (case find (\<lambda>c. c_boothCode c = b) (rev companies) of
                            None \<Rightarrow> None
                          | Some c \<Rightarrow> c_logoUrl c) \<rparr>) ?bs"
    by (rule map_cong [OF refl])
       (simp add: plain visitLabel_plain companyLogo_plain countValue_plain)
  have "\<forall>x \<in> set_mset (mset (entriesOf (visitsRanking reports companies d))). isNumber (cc_value x)"
    unfolding m e by simp
  then have n: "\<forall>x \<in> set (map (\<lambda>(boothCode, v).
                   \<lparr> cc_label = visitLabel ?cim boothCode, cc_value = v,
                     cc_logoUrl = companyLogo ?cim boothCode \<rparr>)
              (objectEntries (fold (\<lambda>report acc. increment acc (r_boothCode report)) ?frs []))).
          isNumber (cc_value x)"
    by (simp add: visitsRanking_def visitsData_def Let_def mset_sortByCountDescending)
  have o: "visitsRanking reports companies d = Ordered (entriesOf (visitsRanking reports companies d))"
    and s: "sorted_wrt (\<lambda>a b. numberOf (cc_value b) \<le> numberOf (cc_value a))
        (entriesOf (visitsRanking reports companies d))"
    unfolding visitsRanking_def visitsData_def Let_def
    using sortByCountDescending_numbers [OF n] by simp_all
  from o m e s show ?thesis by simp
qed

theorem visits_ranking_witness:
  "\<not> inheritedKey ''A12'' \<and> \<not> inheritedKey ''B07'' \<and> \<not> inheritedKey ''7''
   \<and> visitsRanking demoReports (demoCompanies @ [demoNameless]) ''2024-05-02'' =
     Ordered [\<lparr> cc_label = ''Acme'', cc_value = Number 1, cc_logoUrl = None \<rparr>,
              \<lparr> cc_label = ''B07'', cc_value = Number 1, cc_logoUrl = None \<rparr>]
   \<and> visitsRanking demoReports demoCompanies [] =
     Ordered [\<lparr> cc_label = ''Acme'', cc_value = Number 2, cc_logoUrl = None \<rparr>,
              \<lparr> cc_label = ''7'', cc_value = Number 1, cc_logoUrl = None \<rparr>,
              \<lparr> cc_label = ''Borges'', cc_value = Number 1, cc_logoUrl = Some ''b.png'' \<rparr>]
   \<and> sorted_wrt (\<lambda>a b. numberOf (cc_value b) \<le> numberOf (cc_value a))
        (entriesOf (visitsRanking demoReports demoCompanies []))"
proof -
  have k: "\<not> inheritedKey ''A12''" "\<not> inheritedKey ''B07''" "\<not> inheritedKey ''7''"
    by (simp_all add: key_eval)
  have h: "\<forall>r \<in> set (filteredReports demoReports []). \<not> inheritedKey (r_boothCode r)"
    using k by (simp add: demoReports_def filteredReports_def)
  have a: "visitsRanking demoReports (demoCompanies @ [demoNameless]) ''2024-05-02'' =
     Ordered [\<lparr> cc_label = ''Acme'', cc_value = Number 1, cc_logoUrl = None \<rparr>,
              \<lparr> cc_label = ''B07'', cc_value = Number 1, cc_logoUrl = None \<rparr>]"
    by (simp add: demoReports_def demoCompanies_def demoNameless_def ranking_eval)
  have b: "visitsRanking demoReports demoCompanies [] =
     Ordered [\<lparr> cc_label = ''Acme'', cc_value = Number 2, cc_logoUrl = None \<rparr>,
              \<lparr> cc_label = ''7'', cc_value = Number 1, cc_logoUrl = None \<rparr>,
              \<lparr> cc_label = ''Borges'', cc_value = Number 1, cc_logoUrl = Some ''b.png'' \<rparr>]"
    by (simp add: demoReports_def demoCompanies_def ranking_eval)
  from visits_ranking [OF h, of demoCompanies]
  have "sorted_wrt (\<lambda>a b. numberOf (cc_value b) \<le> numberOf (cc_value a))
        (entriesOf (visitsRanking demoReports demoCompanies []))"
    by blast
  with k a b show ?thesis by blast
qed

subsection \<open>C4: the date filter\<close>




subsection \<open>C8: the occurrences ranking\<close>

text \<open>
  When no report has a label that is the name of a member every object inherits, the
  occurrences ranking has exactly one entry for each label that does not both start and
  end with a double underscore, valued with the number of reports bearing it, in
  descending order of value.
\<close>

lemma occurrences_ranking_plain_labels:
  assumes "\<forall>r \<in> set frs. \<not> inheritedKey (r_reportLabel r)"
  shows "occurrencesData frs = Ordered (entriesOf (occurrencesData frs))
   \<and> mset (entriesOf (occurrencesData frs)) =
     mset (map (\<lambda>l. \<lparr> cc_label = l,
                       cc_value = Number (length (filter (\<lambda>r. r_reportLabel r = l) frs)),
                       cc_logoUrl = None \<rparr>)
             (remdups (filter (\<lambda>l. \<not> isInternalLabel l) (map r_reportLabel frs))))
   \<and> sorted_wrt (\<lambda>a b. numberOf (cc_value b) \<le> numberOf (cc_value a))
        (entriesOf (occurrencesData frs))"
proof -
  let ?ls = "remdups (filter (\<lambda>l. \<not> isInternalLabel l) (map r_reportLabel frs))"
  have plain: "\<not> inheritedKey l" if "l \<in> set ?ls" for l
    using that assms by auto
  have e: "map (\<lambda>l. \<lparr> cc_label = l,
                       cc_value = countValue l (length (filter (\<lambda>r. r_reportLabel r = l) frs)),
                       cc_logoUrl = None \<rparr>) ?ls =
           map (\<lambda>l. \<lparr> cc_label = l,
                       cc_value = Number (length (filter (\<lambda>r. r_reportLabel r = l) frs)),
                       cc_logoUrl = None \<rparr>) ?ls"
    by (rule map_cong [OF refl]) (simp add: plain countValue_plain)
  have m: "mset (entriesOf (occurrencesData frs)) =
     mset (map (\<lambda>l. \<lparr> cc_label = l,
                       cc_value = Number (length (filter (\<lambda>r. r_reportLabel r = l) frs)),
                       cc_logoUrl = None \<rparr>) ?ls)"
    by (simp only: occurrences_entries e)
  have "\<forall>x \<in> set_mset (mset (entriesOf (occurrencesData frs))). isNumber (cc_value x)"
    unfolding m by simp
  then have n: "\<forall>x \<in> set (map (\<lambda>(l, v). \<lparr> cc_label = l, cc_value = v, cc_logoUrl = None \<rparr>)
              (objectEntries (fold (\<lambda>report acc.
                           if isInternalLabel (r_reportLabel report) then acc
                           else increment acc (r_reportLabel report)) frs []))).
          isNumber (cc_value x)"
    by (simp add: occurrencesData_def Let_def mset_sortByCountDescending)
  have o: "occurrencesData frs = Ordered (entriesOf (occurrencesData frs))"
    and s: "sorted_wrt (\<lambda>a b. numberOf (cc_value b) \<le> numberOf (cc_value a))
        (entriesOf (occurrencesData frs))"
    unfolding occurrencesData_def Let_def
    using sortByCountDescending_numbers [OF n] by simp_all
  from o m s show ?thesis by simp
qed

text \<open>
  C8 at a report whose label is \<open>constructor\<close>. The label does not start and end with a
  double underscore, so C8 has the report counted once. The accumulator of the reducer is
  an object literal, and under that key it inherits the function \<open>Object\<close>:
  \<open>(acc[label] || 0) + 1\<close> appends 1 to the text of that function instead of adding 1 to
  0. The value of the entry is that text, not the number 1, and a second such report
  appends another 1. Beside numeric counts the comparator of the sort yields NaN, and the
  order of the ranking is left to the engine.
\<close>

theorem occurrences_inherited_label:
  "r_reportLabel demoInheritedLabel = ''constructor''
   \<and> \<not> isInternalLabel ''constructor''
   \<and> occurrencesRanking [demoInheritedLabel] [] =
       Ordered [\<lparr> cc_label = ''constructor'', cc_value = NativeText ''Object'' 1,
                  cc_logoUrl = None \<rparr>]
   \<and> countText (NativeText ''Object'' 1) = Some ''function Object() { [native code] }1''
   \<and> occurrencesRanking [demoInheritedLabel, demoInheritedLabel] [] =
       Ordered [\<lparr> cc_label = ''constructor'', cc_value = NativeText ''Object'' 2,
                  cc_logoUrl = None \<rparr>]
   \<and> occurrencesRanking (demoInheritedLabel # demoReports) [] =
       EngineOrder [\<lparr> cc_label = ''constructor'', cc_value = NativeText ''Object'' 1,
                      cc_logoUrl = None \<rparr>,
                    \<lparr> cc_label = ''Visita'', cc_value = Number 2, cc_logoUrl = None \<rparr>,
                    \<lparr> cc_label = ''Limpeza'', cc_value = Number 1, cc_logoUrl = None \<rparr>]"
  by (simp add: demoInheritedLabel_def demoReports_def ranking_eval nativeFunctionText_def)

subsection \<open>C9: sales without a company or a collaborator\<close>

text \<open>
  C9. A sale whose company is null adds one to the total sales count and leaves the
  sales-by-company ranking as it is without that sale; a sale whose collaborator is null
  adds one to the total and leaves the sales-by-seller ranking as it is without that sale.
  The counts of the seller ranking sum to the number of sales whose collaborator has a
  non-empty id that is not the name of an inherited member (to at most that number when a
  company is selected), which is below the total as soon as one sale has no collaborator.
  When no company id is the name of an inherited member, the counts of the company ranking
  are numbers and sum to the number of sales with a non-empty company id, which is below
  the total as soon as one sale has no company.
\<close>

theorem sales_without_company_or_seller:
  "(sale_company sale = None \<longrightarrow>
      totalSalesCount (xs @ sale # ys) = totalSalesCount (xs @ ys) + 1
      \<and> rankedCompaniesBySales (xs @ sale # ys) companies
          = rankedCompaniesBySales (xs @ ys) companies)
   \<and> (sale_collaborator sale = None \<longrightarrow>
      totalSalesCount (xs @ sale # ys) = totalSalesCount (xs @ ys) + 1
      \<and> rankedSellers (xs @ sale # ys) flt = rankedSellers (xs @ ys) flt)
   \<and> sum_list (map seller_salesCount (rankedSellers fds ''all'')) =
       length (filter (\<lambda>s. case collaboratorKey s of None \<Rightarrow> False
                            | Some k \<Rightarrow> \<not> inheritedKey k) fds)
   \<and> sum_list (map seller_salesCount (rankedSellers fds flt))
       \<le> sum_list (map seller_salesCount (rankedSellers fds ''all''))
   \<and> ((\<exists>s \<in> set fds. sale_collaborator s = None) \<longrightarrow>
       sum_list (map seller_salesCount (rankedSellers fds flt)) < totalSalesCount fds)
   \<and> ((\<forall>s \<in> set fds. \<forall>k. companyKey s = Some k \<longrightarrow> \<not> inheritedKey k) \<longrightarrow>
       (\<forall>e \<in> set (entriesOf (rankedCompaniesBySales fds companies)). isNumber (rc_salesCount e))
       \<and> sum_list (map (\<lambda>e. numberOf (rc_salesCount e))
                    (entriesOf (rankedCompaniesBySales fds companies)))
           = length (filter (\<lambda>s. companyKey s \<noteq> None) fds)
       \<and> ((\<exists>s \<in> set fds. sale_company s = None) \<longrightarrow>
            sum_list (map (\<lambda>e. numberOf (rc_salesCount e))
                       (entriesOf (rankedCompaniesBySales fds companies)))
              < totalSalesCount fds))"
proof -
  have a: "rankedCompaniesBySales (xs @ sale # ys) companies
          = rankedCompaniesBySales (xs @ ys) companies" if "sale_company sale = None"
    using that by (simp add: rankedCompaniesBySales_def countCompanySale_null)
  have b: "rankedSellers (xs @ sale # ys) flt = rankedSellers (xs @ ys) flt"
    if "sale_collaborator sale = None"
    using that by (simp add: rankedSellers_def countSellerSale_null)
  have t: "totalSalesCount (xs @ sale # ys) = totalSalesCount (xs @ ys) + 1"
    by (simp add: totalSalesCount_def)
  have d: "sum_list (map seller_salesCount (rankedSellers fds flt)) < totalSalesCount fds"
    if "\<exists>s \<in> set fds. sale_collaborator s = None"
  proof -
    from that obtain s where "s \<in> set fds"
      "\<not> (case collaboratorKey s of None \<Rightarrow> False | Some k \<Rightarrow> \<not> inheritedKey k)"
      by (auto simp: collaboratorKey_def)
    then have "length (filter (\<lambda>s. case collaboratorKey s of None \<Rightarrow> False
                          | Some k \<Rightarrow> \<not> inheritedKey k) fds) < length fds"
      by (rule length_filter_less)
    with sum_rankedSellers_le [of fds flt] sum_rankedSellers_all [of fds] show ?thesis
      by (simp add: totalSalesCount_def)
  qed
  have c: "(\<forall>e \<in> set (entriesOf (rankedCompaniesBySales fds companies)). isNumber (rc_salesCount e))
       \<and> sum_list (map (\<lambda>e. numberOf (rc_salesCount e))
                    (entriesOf (rankedCompaniesBySales fds companies)))
           = length (filter (\<lambda>s. companyKey s \<noteq> None) fds)
       \<and> ((\<exists>s \<in> set fds. sale_company s = None) \<longrightarrow>
            sum_list (map (\<lambda>e. numberOf (rc_salesCount e))
                       (entriesOf (rankedCompaniesBySales fds companies)))
              < totalSalesCount fds)"
    if h: "\<forall>s \<in> set fds. \<forall>k. companyKey s = Some k \<longrightarrow> \<not> inheritedKey k"
  proof -
    note n = company_numbers [OF h, of companies]
    have "sum_list (map (\<lambda>e. numberOf (rc_salesCount e))
                       (entriesOf (rankedCompaniesBySales fds companies)))
              < totalSalesCount fds" if "\<exists>s \<in> set fds. sale_company s = None"
    proof -
      from that obtain s where "s \<in> set fds" "\<not> companyKey s \<noteq> None"
        by (auto simp: companyKey_def)
      then have "length (filter (\<lambda>s. companyKey s \<noteq> None) fds) < length fds"
        by (rule length_filter_less)
      with n show ?thesis by (simp add: totalSalesCount_def)
    qed
    with n show ?thesis by blast
  qed
  from a b t d c sum_rankedSellers_all [of fds] sum_rankedSellers_le [of fds flt]
  show ?thesis by blast
qed

theorem sales_without_company_or_seller_witness:
  "rankedCompaniesBySales demoSales demoCompanies =
     Ordered [\<lparr> rc_id = ''c1'', rc_name = ''Acme'', rc_salesCount = Number 2, rc_logoUrl = None \<rparr>]
   \<and> totalSalesCount demoSales = 3
   \<and> sale_company (demoSales ! 1) = None
   \<and> sale_collaborator (demoSales ! 1) = None
   \<and> \<not> inheritedKey ''c1''
   \<and> sum_list (map (\<lambda>e. numberOf (rc_salesCount e))
                (entriesOf (rankedCompaniesBySales demoSales demoCompanies)))
       < totalSalesCount demoSales
   \<and> sum_list (map seller_salesCount (rankedSellers demoSales ''all''))
       < totalSalesCount demoSales
   \<and> rankedCompaniesBySales demoSales demoCompanies =
       rankedCompaniesBySales [demoSales ! 0, demoSales ! 2] demoCompanies
   \<and> rankedSellers demoSales ''all'' = rankedSellers [demoSales ! 0, demoSales ! 2] ''all''"
proof -
  have v: "rankedCompaniesBySales demoSales demoCompanies =
     Ordered [\<lparr> rc_id = ''c1'', rc_name = ''Acme'', rc_salesCount = Number 2, rc_logoUrl = None \<rparr>]"
    "totalSalesCount demoSales = 3"
    by (simp_all add: demoSales_def demoCompanies_def sales_eval ranking_eval)
  have n: "sale_company (demoSales ! 1) = None" "sale_collaborator (demoSales ! 1) = None"
    by (simp_all add: demoSales_def)
  have k: "\<not> inheritedKey ''c1''"
    by (simp add: key_eval)
  then have h: "\<forall>s \<in> set demoSales. \<forall>k. companyKey s = Some k \<longrightarrow> \<not> inheritedKey k"
    by (simp add: demoSales_def companyKey_def)
  have sh: "demoSales = [demoSales ! 0] @ (demoSales ! 1) # [demoSales ! 2]"
    by (simp add: demoSales_def)
  have ex: "\<exists>s \<in> set demoSales. sale_company s = None"
    "\<exists>s \<in> set demoSales. sale_collaborator s = None"
    by (simp_all add: demoSales_def)
  note t = sales_without_company_or_seller
      [of "demoSales ! 1" "[demoSales ! 0]" "[demoSales ! 2]" demoCompanies "''all''"
         demoSales]
  from t n sh have e1: "rankedCompaniesBySales demoSales demoCompanies =
       rankedCompaniesBySales [demoSales ! 0, demoSales ! 2] demoCompanies"
    by (metis append_Cons append_Nil)
  from t n sh have e2: "rankedSellers demoSales ''all'' =
       rankedSellers [demoSales ! 0, demoSales ! 2] ''all''"
    by (metis append_Cons append_Nil)
  from t ex h have lt: "sum_list (map (\<lambda>e. numberOf (rc_salesCount e))
                (entriesOf (rankedCompaniesBySales demoSales demoCompanies)))
       < totalSalesCount demoSales"
    "sum_list (map seller_salesCount (rankedSellers demoSales ''all''))
       < totalSalesCount demoSales"
    by blast+
  from v n k e1 e2 lt show ?thesis by blast
qed

subsection \<open>C10: the staff-activity ranking\<close>



end
